theory Spec2Isabelle
  imports Complex_Main "HOL-Library.Sublist" "HOL-Library.AList"
begin

section \<open>Strings\<close>

text \<open>
  File names and paths are Python \<open>str\<close> values. They are modelled as HOL strings whose
  characters are the code points below 256 (Latin-1). \<open>lower_char\<close> is \<open>str.lower\<close> on
  one such character: the ASCII capitals and the Latin-1 capitals (all of 192..222 but
  the multiplication sign 215) move up by 32, every other character stays.
\<close>

definition lower_char :: "char \<Rightarrow> char" where
  "lower_char c =
     (let n = (of_char c :: nat)
      in if (65 \<le> n \<and> n \<le> 90) \<or> (192 \<le> n \<and> n \<le> 222 \<and> n \<noteq> 215)
         then char_of (n + 32) else c)"

definition lower :: "string \<Rightarrow> string" where
  "lower s = map lower_char s"

text \<open>Python's \<open>sub in s\<close> on strings: \<open>sub\<close> occurs in \<open>s\<close> as a contiguous block.\<close>

fun starts_with :: "string \<Rightarrow> string \<Rightarrow> bool" where
  "starts_with [] s = True"
| "starts_with (c # cs) [] = False"
| "starts_with (c # cs) (d # ds) = (c = d \<and> starts_with cs ds)"

fun str_in :: "string \<Rightarrow> string \<Rightarrow> bool" where
  "str_in sub [] = (sub = [])"
| "str_in sub (c # cs) = (starts_with sub (c # cs) \<or> str_in sub cs)"

subsection \<open>\<open>os.path.splitext\<close>\<close>

text \<open>
  \<open>str.rfind\<close> for a one-character needle: the index of its last occurrence, or \<open>-1\<close>.
\<close>

fun rfind_from :: "char \<Rightarrow> string \<Rightarrow> int \<Rightarrow> int \<Rightarrow> int" where
  "rfind_from c [] i found = found"
| "rfind_from c (x # xs) i found = rfind_from c xs (i + 1) (if x = c then i else found)"

definition rfind :: "char \<Rightarrow> string \<Rightarrow> int" where
  "rfind c s = rfind_from c s 0 (- 1)"

text \<open>
  The loop of \<open>genericpath._splitext\<close> that skips leading dots: it answers whether some
  character at an index in \<open>[filenameIndex, dotIndex)\<close> is not a dot.
\<close>

function has_name_char :: "string \<Rightarrow> int \<Rightarrow> int \<Rightarrow> bool" where
  "has_name_char p filenameIndex dotIndex =
     (if filenameIndex < dotIndex then
        (if 0 \<le> filenameIndex \<and> p ! nat filenameIndex \<noteq> CHR ''.'' then True
         else has_name_char p (filenameIndex + 1) dotIndex)
      else False)"
  by pat_completeness auto
termination
  by (relation "measure (\<lambda>(p, i, d). nat (d - i))") auto

declare has_name_char.simps [simp del]

text \<open>
  \<open>os.path.splitext\<close> of \<open>posixpath\<close> (separator \<open>/\<close>, no alternative separator,
  extension separator \<open>.\<close>): the extension starts at the last dot, unless that dot is
  not after the last separator or only dots stand between the separator and it.
\<close>

definition splitext :: "string \<Rightarrow> string \<times> string" where
  "splitext p =
     (let sepIndex = rfind CHR ''/'' p;
          dotIndex = rfind CHR ''.'' p
      in if dotIndex > sepIndex \<and> has_name_char p (sepIndex + 1) dotIndex
         then (take (nat dotIndex) p, drop (nat dotIndex) p)
         else (p, []))"

section \<open>Regular expressions\<close>

text \<open>
  The fragment of Python's \<open>re\<close> syntax that the name patterns use: literal characters,
  \<open>\d\<close>, character sets with single characters and ranges, concatenation, alternation
  \<open>|\<close> and the optional \<open>?\<close>. Groups only bracket and leave no constructor.
\<close>

datatype set_item = One char | Range char char

datatype regex =
    Eps
  | Lit char
  | Digit
  | CharSet "set_item list"
  | Cat regex regex
  | Alt regex regex
  | Opt regex

fun in_item :: "char \<Rightarrow> set_item \<Rightarrow> bool" where
  "in_item c (One d) = (c = d)"
| "in_item c (Range lo hi) = ((of_char lo :: nat) \<le> of_char c \<and> (of_char c :: nat) \<le> of_char hi)"

definition is_digit :: "char \<Rightarrow> bool" where
  "is_digit c = ((48::nat) \<le> of_char c \<and> (of_char c :: nat) \<le> 57)"

text \<open>
  \<open>rmatch r s\<close> lists what is left of \<open>s\<close> after each way \<open>r\<close> can match a prefix of
  it, under \<open>re.IGNORECASE\<close>: a literal matches a character that lower-cases to its own
  lower case. The sets of the patterns hold digits, \<open>-\<close> and \<open>_\<close> only, which have no
  other case.
\<close>

fun rmatch :: "regex \<Rightarrow> string \<Rightarrow> string list" where
  "rmatch Eps s = [s]"
| "rmatch (Lit p) s =
     (case s of [] \<Rightarrow> [] | c # cs \<Rightarrow> if lower_char c = lower_char p then [cs] else [])"
| "rmatch Digit s =
     (case s of [] \<Rightarrow> [] | c # cs \<Rightarrow> if is_digit c then [cs] else [])"
| "rmatch (CharSet items) s =
     (case s of [] \<Rightarrow> [] | c # cs \<Rightarrow> if list_ex (in_item c) items then [cs] else [])"
| "rmatch (Cat a b) s = concat (map (rmatch b) (rmatch a s))"
| "rmatch (Alt a b) s = rmatch a s @ rmatch b s"
| "rmatch (Opt a) s = rmatch a s @ [s]"

text \<open>\<open>re.search(pattern, s, re.IGNORECASE)\<close> as a truth value: a match starts somewhere.\<close>

fun re_search :: "regex \<Rightarrow> string \<Rightarrow> bool" where
  "re_search r [] = (rmatch r [] \<noteq> [])"
| "re_search r (c # cs) = (rmatch r (c # cs) \<noteq> [] \<or> re_search r cs)"

text \<open>A run of literal characters.\<close>

fun lit :: "string \<Rightarrow> regex" where
  "lit [] = Eps"
| "lit (c # cs) = Cat (Lit c) (lit cs)"

section \<open>The tables of \<open>organize_files\<close>\<close>

text \<open>
  \<open>extension_map\<close> (source lines 49 to 102). A Python dict with distinct keys; the
  association list keeps the declared order.
\<close>

definition extension_map :: "(string \<times> string) list" where
  "extension_map =
    [(''.doc'', ''Documents/Word''),
     (''.docx'', ''Documents/Word''),
     (''.pdf'', ''Documents/PDF''),
     (''.txt'', ''Documents/Text''),
     (''.rtf'', ''Documents/Text''),
     (''.xlsx'', ''Documents/Excel''),
     (''.xls'', ''Documents/Excel''),
     (''.pptx'', ''Documents/PowerPoint''),
     (''.ppt'', ''Documents/PowerPoint''),
     (''.jpg'', ''Images/JPEG''),
     (''.jpeg'', ''Images/JPEG''),
     (''.png'', ''Images/PNG''),
     (''.gif'', ''Images/GIF''),
     (''.bmp'', ''Images/BMP''),
     (''.svg'', ''Images/SVG''),
     (''.mp3'', ''Audio/MP3''),
     (''.wav'', ''Audio/WAV''),
     (''.flac'', ''Audio/FLAC''),
     (''.aac'', ''Audio/AAC''),
     (''.mp4'', ''Video/MP4''),
     (''.avi'', ''Video/AVI''),
     (''.mkv'', ''Video/MKV''),
     (''.mov'', ''Video/MOV''),
     (''.zip'', ''Archives/ZIP''),
     (''.rar'', ''Archives/RAR''),
     (''.tar'', ''Archives/TAR''),
     (''.gz'', ''Archives/GZ''),
     (''.py'', ''Programming/Python''),
     (''.java'', ''Programming/Java''),
     (''.cpp'', ''Programming/C++''),
     (''.c'', ''Programming/C''),
     (''.html'', ''WebDevelopment''),
     (''.htm'', ''WebDevelopment''),
     (''.css'', ''WebDevelopment''),
     (''.js'', ''WebDevelopment''),
     (''.php'', ''WebDevelopment''),
     (''.jsx'', ''WebDevelopment''),
     (''.ts'', ''WebDevelopment''),
     (''.tsx'', ''WebDevelopment'')]"

text \<open>
  The two sets and the day and month groups of the date pattern
  \<open>(20\d{2})[-_]?(0[1-9]|1[0-2])[-_]?(0[1-9]|[12][0-9]|3[01])\<close>.
\<close>

definition dash_or_underscore :: regex where
  "dash_or_underscore = CharSet [One CHR ''-'', One CHR ''_'']"

definition date_pattern :: regex where
  "date_pattern =
     Cat (Cat (lit ''20'') (Cat Digit Digit))
    (Cat (Opt dash_or_underscore)
    (Cat (Alt (Cat (Lit CHR ''0'') (CharSet [Range CHR ''1'' CHR ''9'']))
              (Cat (Lit CHR ''1'') (CharSet [Range CHR ''0'' CHR ''2''])))
    (Cat (Opt dash_or_underscore)
         (Alt (Cat (Lit CHR ''0'') (CharSet [Range CHR ''1'' CHR ''9'']))
         (Alt (Cat (CharSet [One CHR ''1'', One CHR ''2'']) (CharSet [Range CHR ''0'' CHR ''9'']))
              (Cat (Lit CHR ''3'') (CharSet [One CHR ''0'', One CHR ''1''])))))))"

text \<open>
  \<open>name_patterns\<close> (source lines 105 to 125). A Python dict iterates over its items in
  insertion order, so the table is the list of its items as declared.
\<close>

definition name_patterns :: "(regex \<times> string) list" where
  "name_patterns =
    [(Alt (lit ''backup'') (lit ''bak''), ''BackupFiles''),
     (Alt (lit ''temp'') (lit ''tmp''), ''TemporaryFiles''),
     (Alt (lit ''draft'') (lit ''wip''), ''WorkInProgress''),
     (Alt (lit ''old'') (Alt (lit ''outdated'') (lit ''deprecated'')), ''OldFiles''),
     (Alt (lit ''screenshot'') (Alt (lit ''screen'') (lit ''scrn'')), ''Screenshots''),
     (Alt (lit ''report'') (lit ''review''), ''Reports''),
     (Alt (lit ''invoice'') (Alt (lit ''receipt'') (lit ''bill'')), ''FinancialDocs''),
     (Alt (lit ''log'') (lit ''logs''), ''LogFiles''),
     (Alt (lit ''presentation'') (lit ''slides''), ''Presentations''),
     (Alt (lit ''project'') (lit ''prj''), ''ProjectFiles''),
     (Alt (lit ''data'') (lit ''dataset''), ''DataFiles''),
     (Alt (lit ''test'') (lit ''testing''), ''TestFiles''),
     (Alt (lit ''sample'') (lit ''example''), ''SampleFiles''),
     (Alt (lit ''config'') (Alt (lit ''cfg'') (lit ''settings'')), ''ConfigFiles''),
     (Alt (lit ''note'') (lit ''notes''), ''Notes''),
     (Alt (lit ''download'') (lit ''dl''), ''Downloads''),
     (Alt (lit ''scan'') (lit ''scanned''), ''ScannedDocs''),
     (date_pattern, ''DateFormattedFiles''),
     (Alt (lit ''website'') (Alt (lit ''site'') (lit ''web'')), ''WebProjects'')]"

section \<open>Classification\<close>

text \<open>
  The loop of source lines 146 to 150: the items in order, leaving at the first pattern
  that \<open>re.search\<close> finds in the file name. \<open>None\<close> is \<open>name_matched = False\<close>.
\<close>

fun match_name_patterns :: "(regex \<times> string) list \<Rightarrow> string \<Rightarrow> string option" where
  "match_name_patterns [] filename = None"
| "match_name_patterns ((pattern, folder) # rest) filename =
     (if re_search pattern filename then Some folder
      else match_name_patterns rest filename)"

text \<open>
  Source lines 139 to 157, over any two tables: the folder name chosen for a file name.
\<close>

definition classify_with ::
  "(regex \<times> string) list \<Rightarrow> (string \<times> string) list \<Rightarrow> string \<Rightarrow> bool \<Rightarrow> string" where
  "classify_with patterns extensions filename organize_by_name =
     (let extension = lower (snd (splitext filename));
          name_matched = (if organize_by_name then match_name_patterns patterns filename
                          else None)
      in case name_matched of
           Some folder \<Rightarrow> folder
         | None \<Rightarrow>
             (case map_of extensions extension of
                Some folder \<Rightarrow> folder
              | None \<Rightarrow> ''Other/'' @ (if extension \<noteq> [] then tl extension
                                       else ''No_Extension'')))"

definition classify :: "string \<Rightarrow> bool \<Rightarrow> string" where
  "classify filename organize_by_name =
     classify_with name_patterns extension_map filename organize_by_name"

section \<open>The directory tree\<close>

text \<open>
  What the functions of \<open>os\<close>, \<open>os.path\<close> and \<open>shutil\<close> see. A file carries what
  \<open>os.path.getsize\<close> and \<open>os.path.getmtime\<close> return for it (\<open>None\<close> when the call raises
  \<open>OSError\<close>), how the operating system answers an attempt to move it (permissions, a
  lock held by another process), and a number that stands for its contents. A directory
  lists its entries by name, in the order \<open>os.listdir\<close> and \<open>os.walk\<close> report them.

  \<open>shutil.move\<close> tries \<open>os.rename\<close> and, when that raises \<open>OSError\<close>, copies the file to
  the destination and unlinks the source. So a move ends in one of three ways: the file
  is at the destination and no longer at the source (\<open>Succeeds\<close>); rename and copy are
  both refused, an exception is raised and nothing has changed (\<open>Refused\<close>); or the copy
  is made but the source cannot be unlinked, an exception is raised and the file is at
  both places (\<open>CopyLeft\<close>).
\<close>

datatype move_outcome = Succeeds | Refused | CopyLeft

record file_info =
  contents :: nat
  getsize :: "nat option"
  getmtime :: "rat option"
  on_move :: move_outcome

datatype node = File file_info | Dir "(string \<times> node) list"

datatype py_error =
    FileExistsError
  | FileNotFoundError
  | NotADirectoryError
  | IsADirectoryError
  | PermissionError
  | ShutilError
  | ZeroDivisionError

text \<open>The node at a path, given by its components below the directory at hand.\<close>

fun lookup :: "node \<Rightarrow> string list \<Rightarrow> node option" where
  "lookup n [] = Some n"
| "lookup (File info) (c # cs) = None"
| "lookup (Dir entries) (c # cs) =
     (case map_of entries c of None \<Rightarrow> None | Some child \<Rightarrow> lookup child cs)"

definition os_path_exists :: "node \<Rightarrow> string list \<Rightarrow> bool" where
  "os_path_exists fs path = (lookup fs path \<noteq> None)"

definition os_path_isdir :: "node \<Rightarrow> string list \<Rightarrow> bool" where
  "os_path_isdir fs path = (case lookup fs path of Some (Dir entries) \<Rightarrow> True | _ \<Rightarrow> False)"

definition os_listdir :: "node \<Rightarrow> py_error + string list" where
  "os_listdir fs = (case fs of File info \<Rightarrow> Inl NotADirectoryError
                    | Dir entries \<Rightarrow> Inr (map fst entries))"

text \<open>
  The components of a relative path written with \<open>/\<close>, as \<open>os.path.join\<close> and the
  system calls read it: empty components (a doubled or trailing separator) drop out.
\<close>

fun split_path_acc :: "string \<Rightarrow> string \<Rightarrow> string list" where
  "split_path_acc cur [] = (if cur = [] then [] else [cur])"
| "split_path_acc cur (c # cs) =
     (if c = CHR ''/'' then (if cur = [] then split_path_acc [] cs
                             else cur # split_path_acc [] cs)
      else split_path_acc (cur @ [c]) cs)"

definition split_path :: "string \<Rightarrow> string list" where
  "split_path p = split_path_acc [] p"

section \<open>The report\<close>

text \<open>
  \<open>os.walk(directory)\<close>, top down: for each directory its path, the names of its
  subdirectories and its other entries, then the walks of the subdirectories in order.
  Each file name comes with the \<open>file_info\<close> that the calls on its path will read.
\<close>

fun subdirs :: "(string \<times> node) list \<Rightarrow> string list" where
  "subdirs [] = []"
| "subdirs ((name, File info) # rest) = subdirs rest"
| "subdirs ((name, Dir entries) # rest) = name # subdirs rest"

fun nondirs :: "(string \<times> node) list \<Rightarrow> (string \<times> file_info) list" where
  "nondirs [] = []"
| "nondirs ((name, File info) # rest) = (name, info) # nondirs rest"
| "nondirs ((name, Dir entries) # rest) = nondirs rest"

fun os_walk :: "string list \<Rightarrow> node \<Rightarrow>
    (string list \<times> string list \<times> (string \<times> file_info) list) list" where
  "os_walk dirpath (File info) = []"
| "os_walk dirpath (Dir entries) =
     (dirpath, subdirs entries, nondirs entries)
       # concat (map (\<lambda>e. os_walk (dirpath @ [fst e]) (snd e)) entries)"

text \<open>
  \<open>os.path.relpath(root, directory)\<close> for a directory of the walk (\<open>root\<close> in the
  source, \<open>root_path\<close> here), and the relabelling of source lines 229 to 231.
\<close>

fun join_path :: "string list \<Rightarrow> string" where
  "join_path [] = ''.''"
| "join_path [c] = c"
| "join_path (c # d # cs) = c @ ''/'' @ join_path (d # cs)"

definition rel_path_of :: "string list \<Rightarrow> string" where
  "rel_path_of root_path =
     (let rel_path = join_path root_path
      in if rel_path = ''.'' then ''Root Directory'' else rel_path)"

definition deletion_categories :: "string list" where
  "deletion_categories =
     [''TemporaryFiles'', ''BackupFiles'', ''OldFiles'', ''Duplicates'', ''Downloads'', ''Cache'']"

text \<open>The loop of source lines 252 to 255, leaving at the first category found.\<close>

fun category_loop :: "string list \<Rightarrow> string \<Rightarrow> string \<Rightarrow> bool" where
  "category_loop [] rel_path file = False"
| "category_loop (category # rest) rel_path file =
     (if str_in (lower category) (lower rel_path) \<or> str_in (lower category) (lower file)
      then True else category_loop rest rel_path file)"

text \<open>Source lines 251 to 259: the value of \<open>is_candidate\<close> at line 261.\<close>

definition is_candidate :: "string \<Rightarrow> string \<Rightarrow> rat \<Rightarrow> bool" where
  "is_candidate rel_path file age_days =
     (let flagged = category_loop deletion_categories rel_path file
      in if age_days > 180 then True else flagged)"

type_synonym file_detail = "string \<times> nat \<times> rat \<times> rat"

type_synonym candidate = "string \<times> string \<times> nat \<times> rat"

text \<open>
  The body of the loop over the files of one directory (source lines 241 to 265) for one
  file: the entry appended to \<open>file_details\<close>, the amount added to \<open>directory_size\<close>,
  and the entry appended to \<open>potential_deletions\<close> if there is one.

  Line 245 computes the age in double-precision arithmetic from the reading of
  \<open>time.time()\<close> at that moment. That arithmetic is not modelled: \<open>age_of modified\<close>
  stands for the double that the expression \<open>(time.time() - modified) / (60 * 60 * 24)\<close>
  yields for this file, a rational number like every double.
\<close>

definition examine_file ::
  "(rat \<Rightarrow> rat) \<Rightarrow> string \<Rightarrow> string \<Rightarrow> file_info \<Rightarrow> file_detail \<times> nat \<times> candidate option" where
  "examine_file age_of rel_path file info =
     (case getsize info of
        None \<Rightarrow> ((file, 0, 0, 0), 0, None)
      | Some sz \<Rightarrow>
          (case getmtime info of
             None \<Rightarrow> ((file, 0, 0, 0), 0, None)
           | Some modified \<Rightarrow>
               (let age_days = age_of modified
                in ((file, sz, modified, age_days), sz,
                    if is_candidate rel_path file age_days
                    then Some (rel_path, file, sz, age_days) else None))))"

text \<open>
  The expression of line 245 without rounding, for a clock that reads \<open>now\<close> whatever the
  number of the file. It is what the doubles give wherever the subtraction and the
  division are exact, as they are for the whole numbers of seconds in the examples of
  this theory.
\<close>

definition exact_age :: "rat \<Rightarrow> nat \<Rightarrow> rat \<Rightarrow> rat" where
  "exact_age now n modified = (now - modified) / (60 * 60 * 24)"

text \<open>
  The state of the walk: the sections written so far (relative path, the file details
  sorted by size, the directory's size), the totals, the candidates, and how many files
  were examined. In the functions of the walk, \<open>age_days_at n modified\<close> is the age that
  line 245 computes for file number \<open>n\<close> of the walk when its modification time is
  \<open>modified\<close>: the clock is read anew for every file.
\<close>

record report_state =
  sections :: "(string \<times> file_detail list \<times> nat) list"
  total_files :: nat
  total_size :: nat
  potential_deletions :: "candidate list"
  examined :: nat

fun scan_files :: "(nat \<Rightarrow> rat \<Rightarrow> rat) \<Rightarrow> string \<Rightarrow> (string \<times> file_info) list \<Rightarrow>
    file_detail list \<times> nat \<times> candidate list \<times> nat \<Rightarrow>
    file_detail list \<times> nat \<times> candidate list \<times> nat" where
  "scan_files age_days_at rel_path [] acc = acc"
| "scan_files age_days_at rel_path ((file, info) # rest) (details, directory_size, deletions, n) =
     (case examine_file (age_days_at n) rel_path file info of
        (detail, sz, found) \<Rightarrow>
          scan_files age_days_at rel_path rest
            (details @ [detail], directory_size + sz,
             (case found of None \<Rightarrow> deletions | Some c \<Rightarrow> deletions @ [c]), n + 1))"

text \<open>
  \<open>list.sort(key=..., reverse=True)\<close> on the size: descending and stable.
\<close>

definition sort_by_size_desc :: "('a \<Rightarrow> nat) \<Rightarrow> 'a list \<Rightarrow> 'a list" where
  "sort_by_size_desc size_of xs = sort_key (\<lambda>x. - int (size_of x)) xs"

text \<open>The body of the loop over the walk (source lines 225 to 280) for one directory.\<close>

definition report_directory ::
  "(nat \<Rightarrow> rat \<Rightarrow> rat) \<Rightarrow> string \<Rightarrow>
   string list \<times> string list \<times> (string \<times> file_info) list \<Rightarrow>
   report_state \<Rightarrow> report_state" where
  "report_directory age_days_at report_filename visit st =
     (case visit of (root_path, dirs, all_files) \<Rightarrow>
        (let files = filter (\<lambda>f. fst f \<noteq> report_filename) all_files
         in if files = [] then st
            else
              (let rel_path = rel_path_of root_path
               in case scan_files age_days_at rel_path files
                         ([], 0, potential_deletions st, examined st) of
                    (details, directory_size, deletions, n) \<Rightarrow>
                      st\<lparr>sections := sections st @
                            [(rel_path, sort_by_size_desc (\<lambda>d. fst (snd d)) details,
                              directory_size)],
                         total_files := total_files st + length files,
                         total_size := total_size st + directory_size,
                         potential_deletions := deletions,
                         examined := n\<rparr>)))"

fun report_walk :: "(nat \<Rightarrow> rat \<Rightarrow> rat) \<Rightarrow> string \<Rightarrow>
    (string list \<times> string list \<times> (string \<times> file_info) list) list \<Rightarrow>
    report_state \<Rightarrow> report_state" where
  "report_walk age_days_at report_filename [] st = st"
| "report_walk age_days_at report_filename (visit # rest) st =
     report_walk age_days_at report_filename rest
       (report_directory age_days_at report_filename visit st)"

definition initial_report_state :: report_state where
  "initial_report_state =
     \<lparr>sections = [], total_files = 0, total_size = 0, potential_deletions = [], examined = 0\<rparr>"

text \<open>
  The candidate section of the summary (source lines 290 to 305): nothing when there is
  no candidate, else the candidates by descending size, the sum of their sizes and its
  share of the total size in percent. The division is Python's \<open>/\<close> on integers, which
  raises \<open>ZeroDivisionError\<close> for a zero divisor; for another divisor the share is given
  here as the exact quotient, which the report prints rounded to one decimal.
\<close>

definition py_truediv :: "nat \<Rightarrow> nat \<Rightarrow> py_error + rat" where
  "py_truediv a b = (if b = 0 then Inl ZeroDivisionError else Inr (of_nat a / of_nat b))"

definition candidate_summary ::
  "report_state \<Rightarrow> py_error + (candidate list \<times> nat \<times> rat) option" where
  "candidate_summary st =
     (if potential_deletions st \<noteq> [] then
        (let sorted_deletions = sort_by_size_desc (\<lambda>c. fst (snd (snd c))) (potential_deletions st);
             potential_savings = sum_list (map (\<lambda>c. fst (snd (snd c))) sorted_deletions)
         in case py_truediv potential_savings (total_size st) of
              Inl e \<Rightarrow> Inl e
            | Inr share \<Rightarrow> Inr (Some (sorted_deletions, potential_savings, share * 100)))
      else Inr None)"

record report =
  report_sections :: "(string \<times> file_detail list \<times> nat) list"
  report_total_files :: nat
  report_total_size :: nat
  report_candidates :: "(candidate list \<times> nat \<times> rat) option"

text \<open>
  \<open>generate_report\<close>: \<open>None\<close> is the result \<open>None\<close> of the source, returned when the
  directory does not exist (argument \<open>None\<close>) and when an exception reaches the handler
  at line 310: the report file cannot be opened because the directory is a file or
  holds a directory of the report's name, or the summary raises.
\<close>

definition generate_report ::
  "(nat \<Rightarrow> rat \<Rightarrow> rat) \<Rightarrow> node option \<Rightarrow> string \<Rightarrow> report option" where
  "generate_report age_days_at directory report_filename =
     (case directory of
        None \<Rightarrow> None
      | Some (File info) \<Rightarrow> None
      | Some (Dir entries) \<Rightarrow>
          if os_path_isdir (Dir entries) [report_filename] then None
          else
            (let st = report_walk age_days_at report_filename (os_walk [] (Dir entries))
                        initial_report_state
             in case candidate_summary st of
                  Inl e \<Rightarrow> None
                | Inr summary \<Rightarrow>
                    Some \<lparr>report_sections = sections st,
                          report_total_files = total_files st,
                          report_total_size = total_size st,
                          report_candidates = summary\<rparr>))"

section \<open>Moving files\<close>

text \<open>
  \<open>os.makedirs(path, exist_ok=True)\<close> inside a directory with the given entries: every
  missing component is created, an existing directory is entered, and a component that
  exists as a file raises (\<open>FileExistsError\<close> for the last component,
  \<open>NotADirectoryError\<close> before it). Nothing is created when it raises.
\<close>

fun makedirs_in :: "(string \<times> node) list \<Rightarrow> string list \<Rightarrow> py_error + (string \<times> node) list" where
  "makedirs_in entries [] = Inr entries"
| "makedirs_in entries (c # cs) =
     (case map_of entries c of
        None \<Rightarrow>
          (case makedirs_in [] cs of
             Inl e \<Rightarrow> Inl e
           | Inr sub \<Rightarrow> Inr (AList.update c (Dir sub) entries))
      | Some (File info) \<Rightarrow> Inl (if cs = [] then FileExistsError else NotADirectoryError)
      | Some (Dir sub) \<Rightarrow>
          (case makedirs_in sub cs of
             Inl e \<Rightarrow> Inl e
           | Inr sub' \<Rightarrow> Inr (AList.update c (Dir sub') entries)))"

definition os_makedirs :: "node \<Rightarrow> string list \<Rightarrow> py_error + node" where
  "os_makedirs fs path =
     (case fs of
        File info \<Rightarrow> Inl NotADirectoryError
      | Dir entries \<Rightarrow>
          (case makedirs_in entries path of Inl e \<Rightarrow> Inl e | Inr entries' \<Rightarrow> Inr (Dir entries')))"

text \<open>
  Writing a node at a path whose parent directory exists: a new entry of the parent, or
  the replacement of the entry of that name.
\<close>

fun put_path :: "(string \<times> node) list \<Rightarrow> string list \<Rightarrow> node \<Rightarrow> (string \<times> node) list" where
  "put_path entries [] n = entries"
| "put_path entries [c] n = AList.update c n entries"
| "put_path entries (c # d # cs) n =
     (case map_of entries c of
        Some (Dir sub) \<Rightarrow> AList.update c (Dir (put_path sub (d # cs) n)) entries
      | _ \<Rightarrow> entries)"

text \<open>
  \<open>shutil.move(src, dst)\<close> for a source that is an entry \<open>filename\<close> of the directory at
  hand and is not a directory (line 136 of the source skips directories before the move).
  As in \<open>shutil\<close>: a destination that is a directory receives the file under its own
  name, unless that name exists there (\<open>shutil.Error\<close>); otherwise \<open>os.rename\<close> puts the
  file at the destination, replacing a file that is there. The result is the tree after
  a move that returns (\<open>Inr\<close>), or the exception raised together with the tree as the
  failed move leaves it (\<open>Inl\<close>): unchanged, or with the copy at the destination when the
  source could not be unlinked.
\<close>

definition shutil_move :: "node \<Rightarrow> string \<Rightarrow> string list \<Rightarrow> (py_error \<times> node) + node" where
  "shutil_move fs filename dst =
     (case fs of
        File info \<Rightarrow> Inl (NotADirectoryError, fs)
      | Dir entries \<Rightarrow>
          (case map_of entries filename of
             None \<Rightarrow> Inl (FileNotFoundError, fs)
           | Some (Dir sub) \<Rightarrow> Inl (IsADirectoryError, fs)
           | Some (File info) \<Rightarrow>
               (let real_dst = (if os_path_isdir fs dst then dst @ [filename] else dst)
                in if os_path_isdir fs dst \<and> os_path_exists fs real_dst
                   then Inl (ShutilError, fs)
                   else if real_dst = [] \<or> \<not> os_path_isdir fs (butlast real_dst)
                        then Inl (FileNotFoundError, fs)
                   else
                     (case on_move info of
                        Refused \<Rightarrow> Inl (PermissionError, fs)
                      | CopyLeft \<Rightarrow>
                          Inl (PermissionError, Dir (put_path entries real_dst (File info)))
                      | Succeeds \<Rightarrow>
                          Inr (Dir (put_path (AList.delete filename entries) real_dst
                                      (File info)))))))"

section \<open>The time stamp\<close>

text \<open>
  The fields of \<open>time.localtime()\<close> that \<open>time.strftime("_%Y%m%d_%H%M%S")\<close> prints:
  \<open>%Y\<close> is the year in decimal, the other five fields are printed with two digits.
\<close>

record tm =
  tm_year :: nat
  tm_mon :: nat
  tm_mday :: nat
  tm_hour :: nat
  tm_min :: nat
  tm_sec :: nat

definition valid_tm :: "tm \<Rightarrow> bool" where
  "valid_tm t =
     (1000 \<le> tm_year t \<and> tm_year t \<le> 9999 \<and> 1 \<le> tm_mon t \<and> tm_mon t \<le> 12
      \<and> 1 \<le> tm_mday t \<and> tm_mday t \<le> 31 \<and> tm_hour t \<le> 23 \<and> tm_min t \<le> 59
      \<and> tm_sec t \<le> 61)"

definition digit_char :: "nat \<Rightarrow> char" where
  "digit_char d = char_of (48 + d)"

function decimal :: "nat \<Rightarrow> string" where
  "decimal n = (if n < 10 then [digit_char n] else decimal (n div 10) @ [digit_char (n mod 10)])"
  by pat_completeness auto
termination
  by (relation "measure (\<lambda>n. n)") auto

declare decimal.simps [simp del]

definition two_digits :: "nat \<Rightarrow> string" where
  "two_digits n = [digit_char (n div 10 mod 10), digit_char (n mod 10)]"

definition strftime_stamp :: "tm \<Rightarrow> string" where
  "strftime_stamp t =
     ''_'' @ decimal (tm_year t) @ two_digits (tm_mon t) @ two_digits (tm_mday t)
     @ ''_'' @ two_digits (tm_hour t) @ two_digits (tm_min t) @ two_digits (tm_sec t)"

section \<open>\<open>organize_files\<close>\<close>

text \<open>
  What the function prints, as events: a file moved (its name, the folder name, the base
  name of the target path), a move that raised (line 181), an exception that reached the
  handler of the whole loop (line 183), and the missing directory (line 43).
\<close>

datatype event =
    Moved string string string
  | ErrorMoving string py_error
  | ErrorOrganizing py_error
  | DirectoryMissing

record organizer_state =
  tree :: node
  moved_files :: nat
  printed :: "event list"

text \<open>
  Source lines 166 to 173: the target path, with the time stamp between base name and
  extension when a node of the file's name exists in the target folder.
\<close>

definition target_path_for :: "tm \<Rightarrow> node \<Rightarrow> string list \<Rightarrow> string \<Rightarrow> string list" where
  "target_path_for now fs target_folder filename =
     (if os_path_exists fs (target_folder @ [filename]) then
        (case splitext filename of
           (name, ext) \<Rightarrow> target_folder @ [name @ strftime_stamp now @ ext])
      else target_folder @ [filename])"

text \<open>
  The body of the loop (source lines 133 to 181) for one name of the listing, with \<open>now\<close>
  the local time that \<open>time.strftime\<close> reads. \<open>Inl\<close> is an exception that leaves the body:
  the one of \<open>os.makedirs\<close>, which stands outside the inner \<open>try\<close>.
\<close>

definition organize_file ::
  "tm \<Rightarrow> bool \<Rightarrow> string \<Rightarrow> organizer_state \<Rightarrow> py_error + organizer_state" where
  "organize_file now organize_by_name filename st =
     (if os_path_isdir (tree st) [filename] then Inr st
      else
        (let folder_name = classify filename organize_by_name;
             target_folder = split_path folder_name
         in case os_makedirs (tree st) target_folder of
              Inl e \<Rightarrow> Inl e
            | Inr fs1 \<Rightarrow>
                (let target_path = target_path_for now fs1 target_folder filename
                 in case shutil_move fs1 filename target_path of
                      Inl (e, fs_left) \<Rightarrow>
                        Inr (st\<lparr>tree := fs_left,
                                printed := printed st @ [ErrorMoving filename e]\<rparr>)
                    | Inr fs2 \<Rightarrow>
                        Inr (st\<lparr>tree := fs2,
                                moved_files := moved_files st + 1,
                                printed := printed st
                                  @ [Moved filename folder_name (last target_path)]\<rparr>))))"

text \<open>
  The loop over the listing; \<open>clock i\<close> is the local time while entry number \<open>i\<close> is
  handled. An exception that leaves the body ends the loop (line 182).
\<close>

fun organize_loop ::
  "(nat \<Rightarrow> tm) \<Rightarrow> bool \<Rightarrow> nat \<Rightarrow> string list \<Rightarrow> organizer_state \<Rightarrow> organizer_state" where
  "organize_loop clock organize_by_name i [] st = st"
| "organize_loop clock organize_by_name i (filename # rest) st =
     (case organize_file (clock i) organize_by_name filename st of
        Inl e \<Rightarrow> st\<lparr>printed := printed st @ [ErrorOrganizing e]\<rparr>
      | Inr st' \<Rightarrow> organize_loop clock organize_by_name (i + 1) rest st')"

text \<open>Source lines 128 to 186 on a path that exists.\<close>

definition organize_dir :: "(nat \<Rightarrow> tm) \<Rightarrow> bool \<Rightarrow> node \<Rightarrow> organizer_state" where
  "organize_dir clock organize_by_name fs =
     (let st = \<lparr>tree = fs, moved_files = 0, printed = []\<rparr>
      in case os_listdir fs of
           Inl e \<Rightarrow> st\<lparr>printed := [ErrorOrganizing e]\<rparr>
         | Inr names \<Rightarrow> organize_loop clock organize_by_name 0 names st)"

text \<open>
  \<open>organize_files\<close>: the tree afterwards (\<open>None\<close>: the path does not exist), the number
  returned, and what was printed.
\<close>

definition organize_files ::
  "(nat \<Rightarrow> tm) \<Rightarrow> node option \<Rightarrow> bool \<Rightarrow> node option \<times> nat \<times> event list" where
  "organize_files clock directory organize_by_name =
     (case directory of
        None \<Rightarrow> (None, 0, [DirectoryMissing])
      | Some fs \<Rightarrow>
          (let st = organize_dir clock organize_by_name fs
           in (Some (tree st), moved_files st, printed st)))"

text \<open>
  Notions for stating what a run does: the entries of the directory, the names of its
  entries that are not directories, the well-formedness of a listing (no name twice), and
  the file names that the printed events talk about.
\<close>

definition entries_of :: "node \<Rightarrow> (string \<times> node) list" where
  "entries_of fs = (case fs of File info \<Rightarrow> [] | Dir entries \<Rightarrow> entries)"

definition top_level_files :: "node \<Rightarrow> string list" where
  "top_level_files fs = map fst (nondirs (entries_of fs))"

definition distinct_names :: "node \<Rightarrow> bool" where
  "distinct_names fs = distinct (map fst (entries_of fs))"

fun event_files :: "event list \<Rightarrow> string list" where
  "event_files [] = []"
| "event_files (Moved filename folder_name base # evs) = filename # event_files evs"
| "event_files (ErrorMoving filename e # evs) = filename # event_files evs"
| "event_files (ev # evs) = event_files evs"

fun moved_names :: "event list \<Rightarrow> string list" where
  "moved_names [] = []"
| "moved_names (Moved filename folder_name base # evs) = filename # moved_names evs"
| "moved_names (ev # evs) = moved_names evs"

section \<open>Evaluation rules\<close>

text \<open>The facts that let the simplifier run the definitions on a concrete file name.\<close>

lemmas char_simps = lower_char_def char_of_def bit_Suc_0_iff lower_def is_digit_def

lemmas search_simps = char_simps name_patterns_def date_pattern_def dash_or_underscore_def

lemmas extension_simps = char_simps extension_map_def splitext_def rfind_def
  has_name_char.simps

lemmas eval_simps = search_simps extension_simps classify_def classify_with_def

lemmas report_simps = char_simps deletion_categories_def is_candidate_def examine_file_def
  exact_age_def
  rel_path_of_def report_directory_def initial_report_state_def sort_by_size_desc_def
  candidate_summary_def py_truediv_def generate_report_def os_path_isdir_def Let_def

lemmas organizer_simps = organize_files_def organize_dir_def organize_file_def
  os_listdir_def os_path_isdir_def os_path_exists_def os_makedirs_def shutil_move_def
  target_path_for_def split_path_def strftime_stamp_def two_digits_def digit_char_def
  decimal.simps valid_tm_def distinct_names_def entries_of_def top_level_files_def Let_def

section \<open>Properties of the classification\<close>

lemma match_name_patterns_first:
  "i < length ps \<Longrightarrow> re_search (fst (ps ! i)) f \<Longrightarrow>
   \<forall>j<i. \<not> re_search (fst (ps ! j)) f \<Longrightarrow>
   match_name_patterns ps f = Some (snd (ps ! i))"
proof (induction ps arbitrary: i)
  case Nil
  then show ?case by simp
next
  case (Cons a ps)
  obtain p c where a: "a = (p, c)" by (cases a)
  show ?case
  proof (cases i)
    case 0
    with Cons.prems a show ?thesis by simp
  next
    case (Suc k)
    have "\<not> re_search p f" using Cons.prems(3) Suc a by auto
    moreover have "\<forall>j<k. \<not> re_search (fst (ps ! j)) f"
    proof (intro allI impI)
      fix j assume "j < k"
      then have "Suc j < i" using Suc by simp
      with Cons.prems(3) have "\<not> re_search (fst ((a # ps) ! Suc j)) f" by blast
      then show "\<not> re_search (fst (ps ! j)) f" by simp
    qed
    then have "match_name_patterns ps f = Some (snd (ps ! k))"
      using Cons.IH [of k] Cons.prems(1,2) Suc by simp
    ultimately show ?thesis using a Suc by simp
  qed
qed

lemma match_name_patterns_none:
  "match_name_patterns ps f = None \<longleftrightarrow> (\<forall>x \<in> set ps. \<not> re_search (fst x) f)"
  by (induction ps) (auto split: if_splits)

lemma take_Suc_nth_props:
  assumes "i < length ps"
  shows "(take (Suc i) ps @ later) ! i = ps ! i"
    and "\<forall>j<i. (take (Suc i) ps @ later) ! j = ps ! j"
    and "i < length (take (Suc i) ps @ later)"
  using assms by (auto simp: nth_append)

text \<open>
  Claim C1. With name matching enabled, the name patterns are tried in their declared
  order and the folder of the first one that \<open>re.search\<close> finds in the file name is the
  result: if pattern number \<open>i\<close> matches and no pattern before it does, the file goes to
  the folder of pattern \<open>i\<close>, whatever patterns stand after it in the table and whatever
  the extension table holds. So a file name that matches several patterns goes to the
  folder of the earliest of them.
\<close>

theorem classify_first_name_pattern:
  assumes "i < length name_patterns"
    and "re_search (fst (name_patterns ! i)) filename"
    and "\<forall>j<i. \<not> re_search (fst (name_patterns ! j)) filename"
  shows "classify filename True = snd (name_patterns ! i)
       \<and> (\<forall>later extensions.
            classify_with (take (Suc i) name_patterns @ later) extensions filename True
              = snd (name_patterns ! i))"
proof -
  have a: "match_name_patterns name_patterns filename = Some (snd (name_patterns ! i))"
    using assms by (rule match_name_patterns_first)
  have b: "match_name_patterns (take (Suc i) name_patterns @ later) filename
             = Some (snd (name_patterns ! i))" for later
    using match_name_patterns_first [of i "take (Suc i) name_patterns @ later" filename]
      assms take_Suc_nth_props [OF assms(1), of later] by simp
  show ?thesis
    using a b by (simp add: classify_def classify_with_def)
qed

theorem classify_first_name_pattern_witness:
  "re_search (fst (name_patterns ! 1)) ''old_temp''
   \<and> re_search (fst (name_patterns ! 3)) ''old_temp''
   \<and> snd (name_patterns ! 3) = ''OldFiles''
   \<and> classify ''old_temp'' True = ''TemporaryFiles''
   \<and> classify_with (take 2 name_patterns @ [(lit ''old'', ''Elsewhere'')]) [] ''old_temp'' True
        = ''TemporaryFiles''"
  using classify_first_name_pattern [of 1 "''old_temp''"]
  by (simp add: eval_simps)

lemma rfind_from_found:
  "rfind_from c xs i found \<noteq> found \<Longrightarrow>
   i \<le> rfind_from c xs i found \<and> rfind_from c xs i found < i + int (length xs)
   \<and> xs ! nat (rfind_from c xs i found - i) = c"
proof (induction xs arbitrary: i found)
  case Nil
  then show ?case by simp
next
  case (Cons x xs)
  let ?r = "rfind_from c (x # xs) i found"
  show ?case
  proof (cases "rfind_from c xs (i + 1) (if x = c then i else found) = (if x = c then i else found)")
    case True
    with Cons.prems have "x = c" "?r = i" by (auto split: if_splits)
    then show ?thesis by simp
  next
    case False
    from Cons.IH [OF False]
    have h: "i + 1 \<le> ?r" "?r < i + 1 + int (length xs)" "xs ! nat (?r - (i + 1)) = c"
      by simp_all
    have "nat (?r - i) = Suc (nat (?r - (i + 1)))" using h(1) by linarith
    with h show ?thesis by simp
  qed
qed


lemma splitext_extension_dot:
  assumes "snd (splitext p) \<noteq> []"
  shows "snd (splitext p) = CHR ''.'' # tl (snd (splitext p))"
proof -
  let ?d = "rfind CHR ''.'' p"
  let ?s = "rfind CHR ''/'' p"
  from assms have gt: "?d > ?s" and ext: "snd (splitext p) = drop (nat ?d) p"
    by (auto simp: splitext_def Let_def split: if_splits)
  have "?s = - 1 \<or> 0 \<le> ?s"
    using rfind_from_found [of "CHR ''/''" p 0 "- 1"] by (auto simp: rfind_def)
  with gt have "?d \<noteq> - 1" by auto
  then have "0 \<le> ?d \<and> ?d < int (length p) \<and> p ! nat ?d = CHR ''.''"
    using rfind_from_found [of "CHR ''.''" p 0 "- 1"] by (simp add: rfind_def)
  then have "drop (nat ?d) p = CHR ''.'' # drop (Suc (nat ?d)) p"
    by (metis Cons_nth_drop_Suc nat_less_iff)
  with ext show ?thesis by simp
qed

lemma lower_empty: "lower s = [] \<longleftrightarrow> s = []"
  by (simp add: lower_def)

lemma lower_char_dot: "lower_char CHR ''.'' = CHR ''.''"
  by (simp add: lower_char_def)

text \<open>
  Claim C8. When name matching is disabled or no name pattern matches the file name, the
  folder is the entry of the extension table for the lower-cased extension if there is
  one; otherwise it is \<open>Other/No_Extension\<close> for a file name without extension and
  \<open>Other/\<close> followed by the lower-cased extension without its leading dot for the others.
\<close>

theorem classify_extension_or_fallback:
  assumes "\<not> organize_by_name \<or> (\<forall>x \<in> set name_patterns. \<not> re_search (fst x) filename)"
  shows "classify filename organize_by_name =
           (case map_of extension_map (lower (snd (splitext filename))) of
              Some folder \<Rightarrow> folder
            | None \<Rightarrow>
                if snd (splitext filename) = [] then ''Other/No_Extension''
                else ''Other/'' @ tl (lower (snd (splitext filename))))
         \<and> (if snd (splitext filename) = [] then True
            else lower (snd (splitext filename))
                   = CHR ''.'' # tl (lower (snd (splitext filename))))"
proof -
  have "(if organize_by_name then match_name_patterns name_patterns filename else None) = None"
    using assms by (auto simp: match_name_patterns_none)
  then have "classify filename organize_by_name =
           (case map_of extension_map (lower (snd (splitext filename))) of
              Some folder \<Rightarrow> folder
            | None \<Rightarrow>
                if snd (splitext filename) = [] then ''Other/No_Extension''
                else ''Other/'' @ tl (lower (snd (splitext filename))))"
    by (simp add: classify_def classify_with_def Let_def lower_empty split: option.splits)
  moreover have "lower (snd (splitext filename))
                   = CHR ''.'' # tl (lower (snd (splitext filename)))"
    if "snd (splitext filename) \<noteq> []"
    using splitext_extension_dot [OF that] lower_char_dot
    by (metis list.map(2) list.sel(3) lower_def)
  ultimately show ?thesis by simp
qed

theorem classify_extension_or_fallback_witness:
  "classify ''notes_backup.TXT'' False = ''Documents/Text''
   \<and> classify ''a.C'' True = ''Programming/C''
   \<and> classify ''x.Q7'' True = ''Other/q7''
   \<and> classify ''xyz'' True = ''Other/No_Extension''"
proof -
  have h1: "\<not> False \<or> (\<forall>x \<in> set name_patterns. \<not> re_search (fst x) ''notes_backup.TXT'')"
    by simp
  have h2: "\<not> True \<or> (\<forall>x \<in> set name_patterns. \<not> re_search (fst x) ''a.C'')"
    by (simp add: search_simps)
  have h3: "\<not> True \<or> (\<forall>x \<in> set name_patterns. \<not> re_search (fst x) ''x.Q7'')"
    by (simp add: search_simps)
  have h4: "\<not> True \<or> (\<forall>x \<in> set name_patterns. \<not> re_search (fst x) ''xyz'')"
    by (simp add: search_simps)
  show ?thesis
    using classify_extension_or_fallback [OF h1] classify_extension_or_fallback [OF h2]
      classify_extension_or_fallback [OF h3] classify_extension_or_fallback [OF h4]
    by (simp add: extension_simps)
qed

section \<open>Properties of the report\<close>

lemma category_loop_iff:
  "category_loop cats rel_path file \<longleftrightarrow>
     (\<exists>c \<in> set cats. str_in (lower c) (lower rel_path) \<or> str_in (lower c) (lower file))"
  by (induction cats) auto

lemma root_label_unmarked:
  "category_loop deletion_categories ''Root Directory'' file
     = category_loop deletion_categories ''.'' file"
  by (simp add: deletion_categories_def char_simps)

lemma rel_path_of_marked:
  "category_loop deletion_categories (rel_path_of root_path) file
     = category_loop deletion_categories (join_path root_path) file"
  using root_label_unmarked by (simp add: rel_path_of_def Let_def)

text \<open>
  Claim C3, as amended. For a file whose size and modification time are both read, the
  file is appended to the deletion candidates if and only if a marker word occurs in its
  relative path or in its name, both lower-cased, or its age in days, as line 245
  computes it, is above 180; either condition is enough. The relative path is the one the report shows, where the root is
  labelled \<open>Root Directory\<close>: a label that holds no marker word (lemma
  \<open>rel_path_of_marked\<close>).
\<close>

theorem candidate_iff_marked_or_old:
  assumes "getsize info = Some sz" and "getmtime info = Some modified"
  shows "fst (snd (snd (scan_files age_days_at rel_path [(file, info)]
                          (details, directory_size, deletions, n))))
         = (if (\<exists>c \<in> set deletion_categories.
                  str_in (lower c) (lower rel_path) \<or> str_in (lower c) (lower file))
               \<or> age_days_at n modified > 180
            then deletions @ [(rel_path, file, sz, age_days_at n modified)]
            else deletions)"
  using assms by (simp add: examine_file_def is_candidate_def category_loop_iff Let_def)

theorem candidate_iff_marked_or_old_witness:
  "fst (snd (snd (scan_files (exact_age 864000) ''BackupFiles''
         [(''a.txt'', \<lparr>contents = 0, getsize = Some 7, getmtime = Some 0, on_move = Succeeds\<rparr>)]
         ([], 0, [], 0)))) = [(''BackupFiles'', ''a.txt'', 7, 10)]
   \<and> fst (snd (snd (scan_files (exact_age 17280000) ''Documents''
         [(''a.txt'', \<lparr>contents = 0, getsize = Some 7, getmtime = Some 0, on_move = Succeeds\<rparr>)]
         ([], 0, [], 0)))) = [(''Documents'', ''a.txt'', 7, 200)]
   \<and> fst (snd (snd (scan_files (exact_age 864000) ''Documents''
         [(''a.txt'', \<lparr>contents = 0, getsize = Some 7, getmtime = Some 0, on_move = Succeeds\<rparr>)]
         ([], 0, [], 0)))) = []"
  using candidate_iff_marked_or_old [of "\<lparr>contents = 0, getsize = Some 7, getmtime = Some 0, on_move = Succeeds\<rparr>" 7 0 "exact_age 864000" "''BackupFiles''" "''a.txt''" "[]" 0 "[]" 0]
    candidate_iff_marked_or_old [of "\<lparr>contents = 0, getsize = Some 7, getmtime = Some 0, on_move = Succeeds\<rparr>" 7 0 "exact_age 17280000" "''Documents''" "''a.txt''" "[]" 0 "[]" 0]
    candidate_iff_marked_or_old [of "\<lparr>contents = 0, getsize = Some 7, getmtime = Some 0, on_move = Succeeds\<rparr>" 7 0 "exact_age 864000" "''Documents''" "''a.txt''" "[]" 0 "[]" 0]
  by (simp add: deletion_categories_def char_simps exact_age_def)

text \<open>
  Claim C3 as stated fails for a file that cannot be read: \<open>Cache.db\<close> holds the marker
  word \<open>Cache\<close>, and with a failing \<open>os.path.getsize\<close> it is not appended to the list.
\<close>

theorem unreadable_marked_file_not_candidate:
  "str_in (lower ''Cache'') (lower ''Cache.db'')
   \<and> fst (snd (snd (scan_files (exact_age 0) ''Root Directory''
         [(''Cache.db'', \<lparr>contents = 0, getsize = None, getmtime = Some 0, on_move = Succeeds\<rparr>)]
         ([], 0, [], 0)))) = []"
  by (simp add: report_simps)

text \<open>
  Claim C4, as amended. In a directory whose relative path holds no marker word,
  \<open>backup_2023.zip\<close> at an age of 10 days is not flagged (no marker word occurs in the
  name: the markers are the folder names such as \<open>BackupFiles\<close>, not the name patterns),
  \<open>report.txt\<close> at 200 days is flagged, and \<open>report.txt\<close> at 5 days is not.
\<close>

theorem deletion_candidate_examples:
  assumes "\<forall>c \<in> set deletion_categories. \<not> str_in (lower c) (lower rel_path)"
  shows "\<not> is_candidate rel_path ''backup_2023.zip'' 10
       \<and> is_candidate rel_path ''report.txt'' 200
       \<and> \<not> is_candidate rel_path ''report.txt'' 5"
proof -
  have a: "\<not> category_loop deletion_categories rel_path ''backup_2023.zip''"
    unfolding category_loop_iff using assms by (simp add: deletion_categories_def char_simps)
  have b: "\<not> category_loop deletion_categories rel_path ''report.txt''"
    unfolding category_loop_iff using assms by (simp add: deletion_categories_def char_simps)
  show ?thesis using a b by (simp add: is_candidate_def)
qed

theorem deletion_candidate_examples_witness:
  "\<not> is_candidate ''Documents/Text'' ''backup_2023.zip'' 10
       \<and> is_candidate ''Documents/Text'' ''report.txt'' 200
       \<and> \<not> is_candidate ''Documents/Text'' ''report.txt'' 5"
proof -
  have h: "\<forall>c \<in> set deletion_categories. \<not> str_in (lower c) (lower ''Documents/Text'')"
    by (simp add: deletion_categories_def char_simps)
  show ?thesis using deletion_candidate_examples [OF h] .
qed

text \<open>
  Claim C4 as stated fails in its first part: \<open>backup_2023.zip\<close> of age 10 days in the
  root directory is not added to the candidates.
\<close>

theorem backup_name_not_flagged:
  "category_loop deletion_categories ''Root Directory'' ''backup_2023.zip'' = False
   \<and> is_candidate ''Root Directory'' ''backup_2023.zip'' 10 = False
   \<and> fst (snd (snd (scan_files (exact_age 864000) ''Root Directory''
         [(''backup_2023.zip'',
           \<lparr>contents = 0, getsize = Some 2048, getmtime = Some 0, on_move = Succeeds\<rparr>)]
         ([], 0, [], 0)))) = []"
  by (simp add: report_simps)

text \<open>
  Claim C5. The percentage of the potential savings divides by the total size, and the
  only guard is that the candidate list is not empty. For a directory that holds one
  empty file named \<open>cache.tmp\<close> the total size is zero, the division raises
  \<open>ZeroDivisionError\<close>, and \<open>generate_report\<close> returns \<open>None\<close>, whatever the age of
  the file.
\<close>

theorem zero_total_size_raises:
  "candidate_summary
     (report_walk age_days_at ''file_organization_report.txt''
        (os_walk [] (Dir [(''cache.tmp'',
           File \<lparr>contents = 0, getsize = Some 0, getmtime = Some 0, on_move = Succeeds\<rparr>)]))
        initial_report_state) = Inl ZeroDivisionError
   \<and> generate_report age_days_at
        (Some (Dir [(''cache.tmp'',
           File \<lparr>contents = 0, getsize = Some 0, getmtime = Some 0, on_move = Succeeds\<rparr>)]))
        ''file_organization_report.txt'' = None"
  by (simp add: report_simps)

lemma examine_file_unreadable:
  "getsize info = None \<or> getmtime info = None \<Longrightarrow>
   examine_file now rel_path file info = ((file, 0, 0, 0), 0, None)"
  by (auto simp: examine_file_def split: option.splits)

lemma examine_file_found:
  "examine_file now rel_path file info = (detail, sz, Some c) \<Longrightarrow>
   \<exists>modified age. getsize info = Some sz \<and> getmtime info = Some modified
      \<and> c = (rel_path, file, sz, age)"
  by (auto simp: examine_file_def Let_def split: option.splits if_splits)

lemma scan_files_origin:
  "c \<in> set (fst (snd (snd (scan_files age_days_at rel_path files (details, dsz, deletions, n))))) \<Longrightarrow>
   c \<in> set deletions \<or>
   (\<exists>file info sz modified age. (file, info) \<in> set files \<and> getsize info = Some sz
      \<and> getmtime info = Some modified \<and> c = (rel_path, file, sz, age))"
proof (induction files arbitrary: details dsz deletions n)
  case Nil
  then show ?case by simp
next
  case (Cons a files)
  obtain fname info where a: "a = (fname, info)" by (cases a)
  obtain detail sz found where e: "examine_file (age_days_at n) rel_path fname info = (detail, sz, found)"
    by (cases "examine_file (age_days_at n) rel_path fname info") auto
  let ?deletions = "case found of None \<Rightarrow> deletions | Some c \<Rightarrow> deletions @ [c]"
  from Cons.prems a e
  have "c \<in> set (fst (snd (snd (scan_files age_days_at rel_path files
                (details @ [detail], dsz + sz, ?deletions, n + 1)))))"
    by simp
  from Cons.IH [OF this]
  consider "c \<in> set ?deletions"
    | "\<exists>file info sz modified age. (file, info) \<in> set files \<and> getsize info = Some sz
          \<and> getmtime info = Some modified \<and> c = (rel_path, file, sz, age)"
    by blast
  then show ?case
  proof cases
    case 1
    show ?thesis
    proof (cases found)
      case None
      with 1 show ?thesis by simp
    next
      case (Some c')
      with 1 have "c \<in> set deletions \<or> c = c'" by auto
      then show ?thesis
      proof
        assume "c \<in> set deletions" then show ?thesis by simp
      next
        assume "c = c'"
        with examine_file_found [of "age_days_at n" rel_path fname info detail sz c'] e Some a
        show ?thesis by auto
      qed
    qed
  next
    case 2
    then show ?thesis by auto
  qed
qed

lemma report_directory_origin:
  assumes "c \<in> set (potential_deletions
                     (report_directory age_days_at report_filename (root_path, dirs, files) st))"
  shows "c \<in> set (potential_deletions st) \<or>
   (\<exists>file info sz modified age. (file, info) \<in> set files \<and> getsize info = Some sz
      \<and> getmtime info = Some modified \<and> c = (rel_path_of root_path, file, sz, age))"
proof -
  let ?files = "filter (\<lambda>f. fst f \<noteq> report_filename) files"
  show ?thesis
  proof (cases "?files = []")
    case True
    with assms show ?thesis by (simp add: report_directory_def)
  next
    case False
    obtain details dsz deletions n where
      s: "scan_files age_days_at (rel_path_of root_path) ?files ([], 0, potential_deletions st, examined st)
            = (details, dsz, deletions, n)"
      by (metis prod_cases4)
    with assms False have "c \<in> set deletions"
      by (simp add: report_directory_def Let_def)
    then have "c \<in> set (fst (snd (snd (scan_files age_days_at (rel_path_of root_path) ?files
                  ([], 0, potential_deletions st, examined st)))))"
      using s by simp
    from scan_files_origin [OF this] show ?thesis by auto
  qed
qed

lemma report_walk_origin:
  "c \<in> set (potential_deletions (report_walk age_days_at report_filename visits st)) \<Longrightarrow>
   c \<in> set (potential_deletions st) \<or>
   (\<exists>root_path dirs files file info sz modified age.
      (root_path, dirs, files) \<in> set visits \<and> (file, info) \<in> set files
      \<and> getsize info = Some sz \<and> getmtime info = Some modified
      \<and> c = (rel_path_of root_path, file, sz, age))"
proof (induction visits arbitrary: st)
  case Nil
  then show ?case by simp
next
  case (Cons visit visits)
  obtain root_path dirs files where v: "visit = (root_path, dirs, files)"
    by (cases visit) auto
  from Cons.prems
  have "c \<in> set (potential_deletions (report_walk age_days_at report_filename visits
                  (report_directory age_days_at report_filename visit st)))"
    by simp
  from Cons.IH [OF this] show ?case
  proof
    assume "c \<in> set (potential_deletions (report_directory age_days_at report_filename visit st))"
    from report_directory_origin [OF this [unfolded v]]
    consider "c \<in> set (potential_deletions st)"
      | "\<exists>fname info sz modified age. (fname, info) \<in> set files \<and> getsize info = Some sz
          \<and> getmtime info = Some modified \<and> c = (rel_path_of root_path, fname, sz, age)"
      by blast
    then show ?thesis
    proof cases
      case 1
      then show ?thesis by simp
    next
      case 2
      then obtain fname info sz modified age where
        "(fname, info) \<in> set files" "getsize info = Some sz" "getmtime info = Some modified"
        "c = (rel_path_of root_path, fname, sz, age)"
        by blast
      moreover have "(root_path, dirs, files) \<in> set (visit # visits)" using v by simp
      ultimately show ?thesis by blast
    qed
  next
    assume "\<exists>root_path dirs files file info sz modified age.
      (root_path, dirs, files) \<in> set visits \<and> (file, info) \<in> set files
      \<and> getsize info = Some sz \<and> getmtime info = Some modified
      \<and> c = (rel_path_of root_path, file, sz, age)"
    then obtain root_path' dirs' files' fname info sz modified age where
      "(root_path', dirs', files') \<in> set visits" "(fname, info) \<in> set files'"
      "getsize info = Some sz" "getmtime info = Some modified"
      "c = (rel_path_of root_path', fname, sz, age)"
      by blast
    moreover from this have "(root_path', dirs', files') \<in> set (visit # visits)" by simp
    ultimately show ?thesis by blast
  qed
qed

lemma sum_list_insort_key:
  fixes f :: "'a \<Rightarrow> nat" and k :: "'a \<Rightarrow> int"
  shows "sum_list (map f (insort_key k x ys)) = f x + sum_list (map f ys)"
  by (induction ys) auto

lemma sum_list_sort_key:
  fixes f :: "'a \<Rightarrow> nat" and k :: "'a \<Rightarrow> int"
  shows "sum_list (map f (sort_key k xs)) = sum_list (map f xs)"
  by (induction xs) (auto simp: sum_list_insort_key)

lemma sum_list_sort_by_size_desc:
  fixes f :: "'a \<Rightarrow> nat"
  shows "sum_list (map f (sort_by_size_desc g xs)) = sum_list (map f xs)"
  by (simp add: sort_by_size_desc_def sum_list_sort_key)

text \<open>
  Claim C9. A file whose size or modification time cannot be read is recorded in the
  listing of its directory with size, time and age zero, adds nothing to the directory's
  size and is not appended to the deletion candidates, whatever its name and path.
  Every entry of the candidate list after the walk stems from a file of the tree whose
  two reads succeeded, and the potential savings are the sum of the sizes in that list.
\<close>

theorem unreadable_file_listed_never_candidate:
  "(getsize info = None \<or> getmtime info = None \<longrightarrow>
      scan_files age_days_at rel_path [(file, info)] (details, directory_size, deletions, n)
        = (details @ [(file, 0, 0, 0)], directory_size, deletions, n + 1))
   \<and> (c \<in> set (potential_deletions
                 (report_walk age_days_at report_filename (os_walk [] fs) initial_report_state)) \<longrightarrow>
       (\<exists>root_path dirs files file info sz modified age.
          (root_path, dirs, files) \<in> set (os_walk [] fs) \<and> (file, info) \<in> set files
          \<and> getsize info = Some sz \<and> getmtime info = Some modified
          \<and> c = (rel_path_of root_path, file, sz, age)))
   \<and> (candidate_summary st = Inr (Some (sorted_deletions, potential_savings, share)) \<longrightarrow>
       potential_savings = sum_list (map (\<lambda>c. fst (snd (snd c))) (potential_deletions st)))"
proof (intro conjI impI)
  assume "getsize info = None \<or> getmtime info = None"
  then show "scan_files age_days_at rel_path [(file, info)] (details, directory_size, deletions, n)
        = (details @ [(file, 0, 0, 0)], directory_size, deletions, n + 1)"
    by (simp add: examine_file_unreadable)
next
  assume "c \<in> set (potential_deletions
                 (report_walk age_days_at report_filename (os_walk [] fs) initial_report_state))"
  from report_walk_origin [OF this]
  show "\<exists>root_path dirs files file info sz modified age.
          (root_path, dirs, files) \<in> set (os_walk [] fs) \<and> (file, info) \<in> set files
          \<and> getsize info = Some sz \<and> getmtime info = Some modified
          \<and> c = (rel_path_of root_path, file, sz, age)"
    by (simp add: initial_report_state_def)
next
  assume "candidate_summary st = Inr (Some (sorted_deletions, potential_savings, share))"
  then show "potential_savings = sum_list (map (\<lambda>c. fst (snd (snd c))) (potential_deletions st))"
    by (auto simp: candidate_summary_def Let_def sum_list_sort_by_size_desc
        split: if_splits sum.splits)
qed

theorem unreadable_file_listed_never_candidate_witness:
  "scan_files (exact_age 0) ''Downloads''
     [(''cache_old.tmp'', \<lparr>contents = 0, getsize = Some 9, getmtime = None, on_move = Succeeds\<rparr>)]
     ([], 0, [], 0) = ([(''cache_old.tmp'', 0, 0, 0)], 0, [], 1)
   \<and> generate_report (exact_age 0)
       (Some (Dir [(''Downloads'', Dir [(''cache_old.tmp'',
          File \<lparr>contents = 0, getsize = Some 9, getmtime = None, on_move = Succeeds\<rparr>)])]))
       ''file_organization_report.txt''
     = Some \<lparr>report_sections = [(''Downloads'', [(''cache_old.tmp'', 0, 0, 0)], 0)],
             report_total_files = 1, report_total_size = 0, report_candidates = None\<rparr>"
  using unreadable_file_listed_never_candidate
    [of "\<lparr>contents = 0, getsize = Some 9, getmtime = None, on_move = Succeeds\<rparr>"
        "exact_age 0" "''Downloads''" "''cache_old.tmp''" "[]" 0 "[]" 0]
  by (simp add: report_simps)

section \<open>Properties of the directory tree\<close>

lemma lookup_update_same: "lookup (Dir (AList.update k v es)) (k # cs) = lookup v cs"
  by (simp add: update_conv')

lemma lookup_update_other:
  "c \<noteq> k \<Longrightarrow> lookup (Dir (AList.update k v es)) (c # cs) = lookup (Dir es) (c # cs)"
  by (simp add: update_conv')














lemma shutil_move_InrD:
  assumes "shutil_move (Dir es) filename dst = Inr fs2"
  shows "\<exists>info real_dst. map_of es filename = Some (File info) \<and> on_move info = Succeeds
           \<and> (real_dst = dst \<or> real_dst = dst @ [filename]) \<and> real_dst \<noteq> []
           \<and> os_path_isdir (Dir es) (butlast real_dst)
           \<and> fs2 = Dir (put_path (AList.delete filename es) real_dst (File info))"
  using assms
  by (auto simp: shutil_move_def Let_def
      split: option.splits node.splits if_splits move_outcome.splits)

lemma shutil_move_InlD:
  assumes "shutil_move (Dir es) filename dst = Inl (e, fs_left)"
  shows "fs_left = Dir es
       \<or> (\<exists>info real_dst. map_of es filename = Some (File info)
             \<and> (real_dst = dst \<or> real_dst = dst @ [filename])
             \<and> fs_left = Dir (put_path es real_dst (File info)))"
  using assms
  by (auto simp: shutil_move_def Let_def
      split: option.splits node.splits if_splits move_outcome.splits)



lemma match_name_patterns_in:
  "match_name_patterns ps f = Some folder \<Longrightarrow> folder \<in> snd ` set ps"
  by (induction ps) (auto split: if_splits)

lemma name_patterns_folders:
  "\<forall>x \<in> set name_patterns. snd x \<noteq> [] \<and> hd (snd x) \<noteq> CHR ''/''"
  by (simp add: name_patterns_def)

lemma extension_map_folders:
  "\<forall>x \<in> set extension_map. snd x \<noteq> [] \<and> hd (snd x) \<noteq> CHR ''/''"
  by (simp add: extension_map_def)

lemma classify_no_leading_slash:
  "classify filename b \<noteq> [] \<and> hd (classify filename b) \<noteq> CHR ''/''"
proof -
  let ?m = "if b then match_name_patterns name_patterns filename else None"
  show ?thesis
  proof (cases ?m)
    case (Some folder)
    then have "folder \<in> snd ` set name_patterns"
      by (auto dest: match_name_patterns_in split: if_splits)
    with name_patterns_folders have "folder \<noteq> [] \<and> hd folder \<noteq> CHR ''/''" by auto
    moreover have "classify filename b = folder"
      using Some by (simp add: classify_def classify_with_def)
    ultimately show ?thesis by simp
  next
    case None
    show ?thesis
    proof (cases "map_of extension_map (lower (snd (splitext filename)))")
      case (Some folder)
      then have "(lower (snd (splitext filename)), folder) \<in> set extension_map"
        by (rule map_of_SomeD)
      with extension_map_folders have "folder \<noteq> [] \<and> hd folder \<noteq> CHR ''/''" by force
      moreover have "classify filename b = folder"
        using None Some by (simp add: classify_def classify_with_def)
      ultimately show ?thesis by simp
    next
      case n: None
      have "classify filename b = ''Other/'' @
              (if lower (snd (splitext filename)) \<noteq> [] then tl (lower (snd (splitext filename)))
               else ''No_Extension'')"
        using None n by (simp add: classify_def classify_with_def)
      then show ?thesis by simp
    qed
  qed
qed

lemma split_path_acc_nonempty: "cur \<noteq> [] \<Longrightarrow> split_path_acc cur s \<noteq> []"
  by (induction s arbitrary: cur) auto

lemma split_path_nonempty: "s \<noteq> [] \<Longrightarrow> hd s \<noteq> CHR ''/'' \<Longrightarrow> split_path s \<noteq> []"
  by (cases s) (auto simp: split_path_def split_path_acc_nonempty)

lemma target_folder_nonempty: "split_path (classify filename b) \<noteq> []"
  using classify_no_leading_slash [of filename b] by (simp add: split_path_nonempty)


section \<open>Properties of \<open>organize_files\<close>\<close>



lemma nondirs_update_dir:
  "map_of es c = None \<or> (\<exists>sub. map_of es c = Some (Dir sub)) \<Longrightarrow>
   nondirs (AList.update c (Dir s) es) = nondirs es"
proof (induction es rule: nondirs.induct)
  case 1
  then show ?case by simp
next
  case (2 name info rest)
  then show ?case by (auto split: if_splits)
next
  case (3 name entries rest)
  then show ?case by (auto split: if_splits)
qed

lemma nondirs_delete_absent: "k \<notin> fst ` set es \<Longrightarrow> nondirs (AList.delete k es) = nondirs es"
  by simp

lemma nondirs_delete_file:
  "map_of es k = Some (File info) \<Longrightarrow> distinct (map fst es) \<Longrightarrow>
   length (nondirs (AList.delete k es)) + 1 = length (nondirs es)"
proof (induction es rule: nondirs.induct)
  case 1
  then show ?case by simp
next
  case (2 name info' rest)
  show ?case
  proof (cases "name = k")
    case True
    with "2.prems"(2) have "k \<notin> fst ` set rest" by auto
    then show ?thesis using True by simp
  next
    case False
    with 2 show ?thesis by simp
  qed
next
  case (3 name entries rest)
  then show ?case by (auto split: if_splits)
qed

lemma makedirs_in_top:
  assumes "makedirs_in es p = Inr es'"
  shows "nondirs es' = nondirs es"
    and "distinct (map fst es) \<Longrightarrow> distinct (map fst es')"
proof -
  show "nondirs es' = nondirs es"
  proof (cases p)
    case Nil
    with assms show ?thesis by simp
  next
    case (Cons c cs)
    with assms show ?thesis
      by (auto simp: nondirs_update_dir split: option.splits node.splits sum.splits)
  qed
  show "distinct (map fst es')" if "distinct (map fst es)"
  proof (cases p)
    case Nil
    with assms that show ?thesis by simp
  next
    case (Cons c cs)
    with assms that show ?thesis
      by (auto simp: distinct_update split: option.splits node.splits sum.splits)
  qed
qed

lemma put_path_deep_top:
  shows "nondirs (put_path es (a # b # r) n) = nondirs es"
    and "distinct (map fst es) \<Longrightarrow> distinct (map fst (put_path es (a # b # r) n))"
  by (auto simp: nondirs_update_dir distinct_update split: option.splits node.splits)

lemma shutil_move_top:
  assumes "shutil_move (Dir es1) f dst = Inr fs2"
    and "2 \<le> length dst"
    and "distinct (map fst es1)"
  shows "\<exists>es2. fs2 = Dir es2 \<and> distinct (map fst es2)
           \<and> length (nondirs es2) + 1 = length (nondirs es1)"
proof -
  from shutil_move_InrD [OF assms(1)] obtain info real_dst where
    m: "map_of es1 f = Some (File info)"
    and r: "real_dst = dst \<or> real_dst = dst @ [f]"
    and fs2: "fs2 = Dir (put_path (AList.delete f es1) real_dst (File info))"
    by blast
  from r assms(2) have "2 \<le> length real_dst" by auto
  then obtain a b rest where rd: "real_dst = a # b # rest"
    by (cases real_dst; cases "tl real_dst") auto
  let ?es2 = "put_path (AList.delete f es1) real_dst (File info)"
  have d: "distinct (map fst (AList.delete f es1))"
    using assms(3) by (rule distinct_delete)
  have "nondirs ?es2 = nondirs (AList.delete f es1)"
    unfolding rd by (rule put_path_deep_top(1))
  moreover have "distinct (map fst ?es2)"
    unfolding rd using d by (rule put_path_deep_top(2))
  moreover have "length (nondirs (AList.delete f es1)) + 1 = length (nondirs es1)"
    using m assms(3) by (rule nondirs_delete_file)
  ultimately show ?thesis using fs2 by simp
qed

lemma shutil_move_failed_top:
  assumes "shutil_move (Dir es1) f dst = Inl (e, fs_left)"
    and "2 \<le> length dst"
    and "distinct (map fst es1)"
  shows "\<exists>es2. fs_left = Dir es2 \<and> distinct (map fst es2) \<and> nondirs es2 = nondirs es1"
proof -
  from shutil_move_InlD [OF assms(1)]
  consider "fs_left = Dir es1"
    | info real_dst where "real_dst = dst \<or> real_dst = dst @ [f]"
        "fs_left = Dir (put_path es1 real_dst (File info))"
    by blast
  then show ?thesis
  proof cases
    case 1
    then show ?thesis using assms(3) by simp
  next
    case 2
    from 2(1) assms(2) have "2 \<le> length real_dst" by auto
    then obtain a b rest where rd: "real_dst = a # b # rest"
      by (cases real_dst; cases "tl real_dst") auto
    have "nondirs (put_path es1 real_dst (File info)) = nondirs es1"
      unfolding rd by (rule put_path_deep_top(1))
    moreover have "distinct (map fst (put_path es1 real_dst (File info)))"
      unfolding rd using assms(3) by (rule put_path_deep_top(2))
    ultimately show ?thesis using 2(2) by simp
  qed
qed

lemma target_path_for_length:
  "length (target_path_for now fs folder filename) = length folder + 1"
  by (simp add: target_path_for_def split: prod.splits)

lemma organize_file_step:
  assumes "organize_file now b f st = Inr st'"
    and "distinct_names (tree st)"
  shows "distinct_names (tree st')
       \<and> moved_files st' + length (top_level_files (tree st'))
           = moved_files st + length (top_level_files (tree st))
       \<and> (\<exists>evs. printed st' = printed st @ evs \<and> set (event_files evs) \<subseteq> {f}
                 \<and> length (event_files evs) \<le> 1
                 \<and> moved_files st' = moved_files st + length (moved_names evs))"
proof (cases "os_path_isdir (tree st) [f]")
  case True
  with assms have "st' = st" by (simp add: organize_file_def)
  then show ?thesis using assms(2) by simp
next
  case False
  let ?folder = "split_path (classify f b)"
  from assms(1) False obtain fs1 where mk: "os_makedirs (tree st) ?folder = Inr fs1"
    by (auto simp: organize_file_def Let_def split: sum.splits)
  then obtain es es1 where es: "tree st = Dir es" and fs1: "fs1 = Dir es1"
    and mki: "makedirs_in es ?folder = Inr es1"
    by (auto simp: os_makedirs_def split: node.splits sum.splits)
  have d1: "distinct (map fst es1)"
    using makedirs_in_top(2) [OF mki] assms(2) es by (simp add: distinct_names_def entries_of_def)
  have n1: "nondirs es1 = nondirs es"
    using mki by (rule makedirs_in_top(1))
  let ?target = "target_path_for now fs1 ?folder f"
  have deep: "2 \<le> length ?target"
    using target_folder_nonempty [of f b]
    by (cases ?folder) (auto simp: target_path_for_length)
  show ?thesis
  proof (cases "shutil_move fs1 f ?target")
    case (Inl failure)
    obtain e fs_left where failure: "failure = (e, fs_left)" by (cases failure)
    from assms(1) False mk Inl failure
    have st': "st' = st\<lparr>tree := fs_left, printed := printed st @ [ErrorMoving f e]\<rparr>"
      by (simp add: organize_file_def Let_def)
    from shutil_move_failed_top [OF Inl [unfolded failure fs1] deep [unfolded fs1] d1]
    obtain es2 where fs_left: "fs_left = Dir es2" and d2: "distinct (map fst es2)"
      and n2: "nondirs es2 = nondirs es1"
      by blast
    have "printed st' = printed st @ [ErrorMoving f e]
          \<and> set (event_files [ErrorMoving f e]) \<subseteq> {f}
          \<and> length (event_files [ErrorMoving f e]) \<le> 1
          \<and> moved_files st' = moved_files st + length (moved_names [ErrorMoving f e])"
      using st' by simp
    then show ?thesis
      using st' d2 n2 n1 es fs_left
      by (auto simp: distinct_names_def entries_of_def top_level_files_def)
  next
    case (Inr fs2)
    with assms(1) False mk
    have st': "st' = st\<lparr>tree := fs2, moved_files := moved_files st + 1,
                 printed := printed st @ [Moved f (classify f b) (last ?target)]\<rparr>"
      by (simp add: organize_file_def Let_def)
    from shutil_move_top [OF Inr [unfolded fs1] deep [unfolded fs1] d1] obtain es2 where
      fs2: "fs2 = Dir es2" and d2: "distinct (map fst es2)"
      and n2: "length (nondirs es2) + 1 = length (nondirs es1)"
      by blast
    let ?ev = "Moved f (classify f b) (last ?target)"
    have "printed st' = printed st @ [?ev]
          \<and> set (event_files [?ev]) \<subseteq> {f}
          \<and> length (event_files [?ev]) \<le> 1
          \<and> moved_files st' = moved_files st + length (moved_names [?ev])"
      using st' by simp
    then show ?thesis
      using st' d2 n2 n1 es fs2
      by (auto simp: distinct_names_def entries_of_def top_level_files_def)
  qed
qed

lemma event_files_append: "event_files (xs @ ys) = event_files xs @ event_files ys"
  by (induction xs rule: event_files.induct) auto

lemma moved_names_append: "moved_names (xs @ ys) = moved_names xs @ moved_names ys"
  by (induction xs rule: moved_names.induct) auto

lemma moved_names_sub:
  "set (moved_names evs) \<subseteq> set (event_files evs)
   \<and> (distinct (event_files evs) \<longrightarrow> distinct (moved_names evs))"
  by (induction evs rule: event_files.induct) auto

lemma organize_loop_inv:
  assumes "distinct_names (tree st)"
  shows "distinct_names (tree (organize_loop clock b i names st))
       \<and> moved_files (organize_loop clock b i names st)
           + length (top_level_files (tree (organize_loop clock b i names st)))
           = moved_files st + length (top_level_files (tree st))
       \<and> (\<exists>evs. printed (organize_loop clock b i names st) = printed st @ evs
                 \<and> set (event_files evs) \<subseteq> set names
                 \<and> (distinct names \<longrightarrow> distinct (event_files evs))
                 \<and> moved_files (organize_loop clock b i names st)
                     = moved_files st + length (moved_names evs))"
  using assms
proof (induction names arbitrary: st i)
  case Nil
  then show ?case by simp
next
  case (Cons f rest)
  show ?case
  proof (cases "organize_file (clock i) b f st")
    case (Inl e)
    then have l: "organize_loop clock b i (f # rest) st
                    = st\<lparr>printed := printed st @ [ErrorOrganizing e]\<rparr>"
      by simp
    have "printed (st\<lparr>printed := printed st @ [ErrorOrganizing e]\<rparr>)
            = printed st @ [ErrorOrganizing e]
          \<and> set (event_files [ErrorOrganizing e]) \<subseteq> set (f # rest)
          \<and> (distinct (f # rest) \<longrightarrow> distinct (event_files [ErrorOrganizing e]))
          \<and> moved_files (st\<lparr>printed := printed st @ [ErrorOrganizing e]\<rparr>)
              = moved_files st + length (moved_names [ErrorOrganizing e])"
      by simp
    then have "\<exists>evs. printed (st\<lparr>printed := printed st @ [ErrorOrganizing e]\<rparr>)
                   = printed st @ evs
                 \<and> set (event_files evs) \<subseteq> set (f # rest)
                 \<and> (distinct (f # rest) \<longrightarrow> distinct (event_files evs))
                 \<and> moved_files (st\<lparr>printed := printed st @ [ErrorOrganizing e]\<rparr>)
                     = moved_files st + length (moved_names evs)"
      by blast
    then show ?thesis unfolding l using Cons.prems by simp
  next
    case (Inr st1)
    then have l: "organize_loop clock b i (f # rest) st
                    = organize_loop clock b (i + 1) rest st1"
      by simp
    from organize_file_step [OF Inr Cons.prems] obtain evs1 where
      d1: "distinct_names (tree st1)"
      and c1: "moved_files st1 + length (top_level_files (tree st1))
                = moved_files st + length (top_level_files (tree st))"
      and p1: "printed st1 = printed st @ evs1"
      and s1: "set (event_files evs1) \<subseteq> {f}"
      and n1: "length (event_files evs1) \<le> 1"
      and m1: "moved_files st1 = moved_files st + length (moved_names evs1)"
      by blast
    let ?r = "organize_loop clock b (i + 1) rest st1"
    from Cons.IH [OF d1, of "i + 1"] obtain evs2 where
      d2: "distinct_names (tree ?r)"
      and c2: "moved_files ?r + length (top_level_files (tree ?r))
                = moved_files st1 + length (top_level_files (tree st1))"
      and p2: "printed ?r = printed st1 @ evs2"
      and s2: "set (event_files evs2) \<subseteq> set rest"
      and n2: "distinct rest \<longrightarrow> distinct (event_files evs2)"
      and m2: "moved_files ?r = moved_files st1 + length (moved_names evs2)"
      by blast
    have dist1: "distinct (event_files evs1)"
      using n1 by (cases "event_files evs1"; cases "tl (event_files evs1)") auto
    have "printed ?r = printed st @ (evs1 @ evs2)"
      using p1 p2 by simp
    moreover have "set (event_files (evs1 @ evs2)) \<subseteq> set (f # rest)"
      using s1 s2 by (auto simp: event_files_append)
    moreover have "distinct (f # rest) \<longrightarrow> distinct (event_files (evs1 @ evs2))"
      using s1 s2 n2 dist1 by (auto simp: event_files_append)
    moreover have "moved_files ?r = moved_files st + length (moved_names (evs1 @ evs2))"
      using m1 m2 by (simp add: moved_names_append)
    ultimately have "\<exists>evs. printed ?r = printed st @ evs
                 \<and> set (event_files evs) \<subseteq> set (f # rest)
                 \<and> (distinct (f # rest) \<longrightarrow> distinct (event_files evs))
                 \<and> moved_files ?r = moved_files st + length (moved_names evs)"
      by blast
    then show ?thesis unfolding l using d2 c1 c2 by simp
  qed
qed

lemma organize_dir_inv:
  assumes "distinct_names fs"
  shows "distinct_names (tree (organize_dir clock b fs))
       \<and> moved_files (organize_dir clock b fs)
           + length (top_level_files (tree (organize_dir clock b fs)))
           = length (top_level_files fs)
       \<and> set (event_files (printed (organize_dir clock b fs))) \<subseteq> set (map fst (entries_of fs))
       \<and> distinct (event_files (printed (organize_dir clock b fs)))
       \<and> moved_files (organize_dir clock b fs)
           = length (moved_names (printed (organize_dir clock b fs)))"
proof (cases fs)
  case (File info)
  then show ?thesis
    by (simp add: organize_dir_def os_listdir_def distinct_names_def entries_of_def)
next
  case (Dir es)
  let ?st = "\<lparr>tree = fs, moved_files = 0, printed = []\<rparr>"
  have o: "organize_dir clock b fs = organize_loop clock b 0 (map fst es) ?st"
    using Dir by (simp add: organize_dir_def os_listdir_def)
  have "distinct_names (tree ?st)" using assms by simp
  from organize_loop_inv [OF this, of clock b 0 "map fst es"]
  show ?thesis
    unfolding o using assms Dir by (auto simp: distinct_names_def entries_of_def)
qed

lemma nondirs_empty_all_dirs:
  "nondirs es = [] \<Longrightarrow> (k, v) \<in> set es \<Longrightarrow> \<exists>sub. v = Dir sub"
  by (induction es rule: nondirs.induct) auto

lemma only_dirs_isdir:
  assumes "nondirs es = []" and "name \<in> fst ` set es"
  shows "os_path_isdir (Dir es) [name]"
proof -
  from assms(2) obtain child where m: "map_of es name = Some child"
    by (metis map_of_eq_None_iff not_Some_eq)
  then have "(name, child) \<in> set es" by (rule map_of_SomeD)
  with assms(1) obtain sub where "child = Dir sub"
    using nondirs_empty_all_dirs by blast
  with m show ?thesis by (simp add: os_path_isdir_def)
qed

lemma organize_loop_only_dirs:
  assumes "tree st = Dir es" and "nondirs es = []" and "set names \<subseteq> fst ` set es"
  shows "organize_loop clock b i names st = st"
  using assms(3)
proof (induction names arbitrary: i)
  case Nil
  then show ?case by simp
next
  case (Cons f rest)
  then have "os_path_isdir (tree st) [f]"
    using only_dirs_isdir [OF assms(2), of f] assms(1) by simp
  then have "organize_file (clock i) b f st = Inr st"
    by (simp add: organize_file_def)
  then show ?case using Cons by simp
qed

lemma organize_file_count:
  assumes "organize_file now b f st = Inr st'"
  shows "\<exists>evs. printed st' = printed st @ evs
           \<and> moved_files st' = moved_files st + length (moved_names evs)"
proof -
  from assms consider "st' = st"
    | fs1 e where "st' = st\<lparr>tree := fs1, printed := printed st @ [ErrorMoving f e]\<rparr>"
    | fs2 base where "st' = st\<lparr>tree := fs2, moved_files := moved_files st + 1,
                        printed := printed st @ [Moved f (classify f b) base]\<rparr>"
    by (auto simp: organize_file_def Let_def split: if_splits sum.splits prod.splits)
  then show ?thesis
  proof cases
    case 1
    then have "printed st' = printed st @ []
        \<and> moved_files st' = moved_files st + length (moved_names [])"
      by simp
    then show ?thesis by blast
  next
    case 2
    then have "printed st' = printed st @ [ErrorMoving f e]
        \<and> moved_files st' = moved_files st + length (moved_names [ErrorMoving f e])"
      by simp
    then show ?thesis by blast
  next
    case 3
    then have "printed st' = printed st @ [Moved f (classify f b) base]
        \<and> moved_files st' = moved_files st
            + length (moved_names [Moved f (classify f b) base])"
      by simp
    then show ?thesis by blast
  qed
qed

lemma organize_loop_count:
  "\<exists>evs. printed (organize_loop clock b i names st) = printed st @ evs
     \<and> moved_files (organize_loop clock b i names st)
         = moved_files st + length (moved_names evs)"
proof (induction names arbitrary: i st)
  case Nil
  have "printed st = printed st @ [] \<and> moved_files st = moved_files st + length (moved_names [])"
    by simp
  then show ?case by (metis organize_loop.simps(1))
next
  case (Cons f rest)
  show ?case
  proof (cases "organize_file (clock i) b f st")
    case (Inl e)
    let ?r = "st\<lparr>printed := printed st @ [ErrorOrganizing e]\<rparr>"
    have "printed ?r = printed st @ [ErrorOrganizing e]
        \<and> moved_files ?r = moved_files st + length (moved_names [ErrorOrganizing e])"
      by simp
    then have "\<exists>evs. printed ?r = printed st @ evs
        \<and> moved_files ?r = moved_files st + length (moved_names evs)"
      by blast
    then show ?thesis using Inl by simp
  next
    case (Inr st1)
    from organize_file_count [OF Inr] obtain evs1 where
      p1: "printed st1 = printed st @ evs1"
      and m1: "moved_files st1 = moved_files st + length (moved_names evs1)"
      by blast
    let ?r = "organize_loop clock b (i + 1) rest st1"
    from Cons.IH [of "i + 1" st1] obtain evs2 where
      p2: "printed ?r = printed st1 @ evs2"
      and m2: "moved_files ?r = moved_files st1 + length (moved_names evs2)"
      by blast
    have "printed ?r = printed st @ (evs1 @ evs2)
        \<and> moved_files ?r = moved_files st + length (moved_names (evs1 @ evs2))"
      using p1 p2 m1 m2 by (simp add: moved_names_append)
    then have "\<exists>evs. printed ?r = printed st @ evs
        \<and> moved_files ?r = moved_files st + length (moved_names evs)"
      by blast
    then show ?thesis using Inr by simp
  qed
qed

lemma organize_dir_count:
  "moved_files (organize_dir clock b fs) = length (moved_names (printed (organize_dir clock b fs)))"
proof (cases "os_listdir fs")
  case (Inl e)
  then show ?thesis by (simp add: organize_dir_def)
next
  case (Inr names)
  from organize_loop_count [of clock b 0 names "\<lparr>tree = fs, moved_files = 0, printed = []\<rparr>"]
  show ?thesis using Inr by (auto simp: organize_dir_def)
qed

text \<open>
  An exception of \<open>shutil.move\<close> is caught inside the loop (lines 175 to 181): the
  failure is printed, the counter stays as it is, the tree is as the failed move leaves
  it, and the loop goes on with the remaining names.
\<close>

lemma move_exception_is_caught:
  assumes "\<not> os_path_isdir (tree st) [filename]"
    and "os_makedirs (tree st) (split_path (classify filename b)) = Inr with_folder"
    and "shutil_move with_folder filename
           (target_path_for (clock i) with_folder (split_path (classify filename b)) filename)
         = Inl (e, fs_left)"
  shows "organize_loop clock b i (filename # rest) st
           = organize_loop clock b (i + 1) rest
               (st\<lparr>tree := fs_left, printed := printed st @ [ErrorMoving filename e]\<rparr>)"
  using assms by (simp add: organize_file_def Let_def)

text \<open>
  The number returned is the number of files reported as moved, and for a listing
  without repeated names it is the number of top-level files that have left the top level.
\<close>

lemma returned_count:
  "(organize_files clock directory b = (after, n, out) \<longrightarrow> n = length (moved_names out))
   \<and> (distinct_names fs \<and> organize_files clock (Some fs) b = (Some fs', n', out')
     \<longrightarrow> n' + length (top_level_files fs') = length (top_level_files fs))"
proof (intro conjI impI)
  assume a: "organize_files clock directory b = (after, n, out)"
  show "n = length (moved_names out)"
  proof (cases directory)
    case None
    with a show ?thesis by (auto simp: organize_files_def)
  next
    case (Some d)
    with a organize_dir_count [of clock b d] show ?thesis
      by (auto simp: organize_files_def Let_def)
  qed
next
  assume "distinct_names fs \<and> organize_files clock (Some fs) b = (Some fs', n', out')"
  then show "n' + length (top_level_files fs') = length (top_level_files fs)"
    using organize_dir_inv [of fs clock b] by (auto simp: organize_files_def Let_def)
qed

text \<open>
  Claim C6. The claim does not hold of the code for a file whose move fails before
  \<open>shutil.move\<close> is reached: \<open>os.makedirs\<close> (line 163) stands outside the inner \<open>try\<close>, so
  its exception goes to the handler of the whole loop (line 182) and the remaining names
  are not processed. In a directory listed as \<open>a.txt\<close>, \<open>Documents\<close> (a file), \<open>c.xyz\<close>
  the folder \<open>Documents/Text\<close> cannot be created for \<open>a.txt\<close>: the run prints the error of
  the loop, returns 0 and leaves \<open>c.xyz\<close> where it is, although a run on \<open>c.xyz\<close> alone
  moves it. The same happens when a later file fails after earlier ones were moved.
\<close>

theorem makedirs_failure_aborts_rest:
  "organize_files clock
     (Some (Dir [(''a.txt'', File \<lparr>contents = 1, getsize = Some 1, getmtime = Some 0, on_move = Succeeds\<rparr>),
                 (''Documents'', File \<lparr>contents = 2, getsize = Some 1, getmtime = Some 0, on_move = Succeeds\<rparr>),
                 (''c.xyz'', File \<lparr>contents = 3, getsize = Some 1, getmtime = Some 0, on_move = Succeeds\<rparr>)]))
     False
   = (Some (Dir [(''a.txt'', File \<lparr>contents = 1, getsize = Some 1, getmtime = Some 0, on_move = Succeeds\<rparr>),
                 (''Documents'', File \<lparr>contents = 2, getsize = Some 1, getmtime = Some 0, on_move = Succeeds\<rparr>),
                 (''c.xyz'', File \<lparr>contents = 3, getsize = Some 1, getmtime = Some 0, on_move = Succeeds\<rparr>)]),
      0, [ErrorOrganizing NotADirectoryError])
   \<and> organize_files clock
       (Some (Dir [(''c.xyz'', File \<lparr>contents = 3, getsize = Some 1, getmtime = Some 0, on_move = Succeeds\<rparr>)]))
       False
     = (Some (Dir [(''Other'', Dir [(''xyz'', Dir [(''c.xyz'',
          File \<lparr>contents = 3, getsize = Some 1, getmtime = Some 0, on_move = Succeeds\<rparr>)])])]),
        1, [Moved ''c.xyz'' ''Other/xyz'' ''c.xyz''])
   \<and> organize_files clock
       (Some (Dir [(''c.xyz'', File \<lparr>contents = 3, getsize = Some 1, getmtime = Some 0, on_move = Succeeds\<rparr>),
                   (''a.txt'', File \<lparr>contents = 1, getsize = Some 1, getmtime = Some 0, on_move = Succeeds\<rparr>),
                   (''Documents'', File \<lparr>contents = 2, getsize = Some 1, getmtime = Some 0, on_move = Succeeds\<rparr>),
                   (''d.py'', File \<lparr>contents = 4, getsize = Some 1, getmtime = Some 0, on_move = Succeeds\<rparr>)]))
       False
     = (Some (Dir [(''a.txt'', File \<lparr>contents = 1, getsize = Some 1, getmtime = Some 0, on_move = Succeeds\<rparr>),
                   (''Documents'', File \<lparr>contents = 2, getsize = Some 1, getmtime = Some 0, on_move = Succeeds\<rparr>),
                   (''d.py'', File \<lparr>contents = 4, getsize = Some 1, getmtime = Some 0, on_move = Succeeds\<rparr>),
                   (''Other'', Dir [(''xyz'', Dir [(''c.xyz'',
          File \<lparr>contents = 3, getsize = Some 1, getmtime = Some 0, on_move = Succeeds\<rparr>)])])]),
        1, [Moved ''c.xyz'' ''Other/xyz'' ''c.xyz'', ErrorOrganizing NotADirectoryError])"
  by (simp add: organizer_simps extension_simps classify_def classify_with_def)

text \<open>
  Claim C7. If a run on a directory has moved every top-level file (the number returned
  is the number of entries that are not directories), then no such entry is left, and a
  second run, whatever its clock and mode, returns 0, leaves the tree as it is and
  handles no file: every name of its listing is a directory and is skipped.
\<close>

theorem second_run_moves_nothing:
  assumes "distinct_names fs"
    and "organize_files clock (Some fs) b = (Some organized, n, out)"
    and "n = length (top_level_files fs)"
  shows "top_level_files organized = []
       \<and> (\<exists>again. organize_files clock' (Some organized) b' = (Some organized, 0, again)
                   \<and> event_files again = [])"
proof -
  from assms(2) have o: "organized = tree (organize_dir clock b fs)"
    and n: "n = moved_files (organize_dir clock b fs)"
    by (auto simp: organize_files_def Let_def)
  from organize_dir_inv [OF assms(1), of clock b]
  have "moved_files (organize_dir clock b fs)
          + length (top_level_files (tree (organize_dir clock b fs)))
        = length (top_level_files fs)"
    by blast
  then have "length (top_level_files organized) = 0"
    unfolding o using n assms(3) by linarith
  then have none: "top_level_files organized = []" by simp
  have "\<exists>again. organize_dir clock' b' organized
                  = \<lparr>tree = organized, moved_files = 0, printed = again\<rparr>
               \<and> event_files again = []"
  proof (cases organized)
    case (File info)
    then show ?thesis by (simp add: organize_dir_def os_listdir_def)
  next
    case (Dir es)
    with none have e: "nondirs es = []"
      by (simp add: top_level_files_def entries_of_def)
    let ?st = "\<lparr>tree = organized, moved_files = 0, printed = []\<rparr>"
    have "organize_loop clock' b' 0 (map fst es) ?st = ?st"
      by (rule organize_loop_only_dirs [where es = es]) (use Dir e in auto)
    then show ?thesis using Dir by (simp add: organize_dir_def os_listdir_def)
  qed
  then show ?thesis using none by (auto simp: organize_files_def Let_def)
qed

theorem second_run_moves_nothing_witness:
  "organize_files
     (\<lambda>i. \<lparr>tm_year = 2026, tm_mon = 11, tm_mday = 4, tm_hour = 9, tm_min = 5, tm_sec = 7\<rparr>)
     (Some (Dir [(''a.txt'', File \<lparr>contents = 1, getsize = Some 1, getmtime = Some 0, on_move = Succeeds\<rparr>),
                 (''sub'', Dir [(''z.txt'',
                    File \<lparr>contents = 9, getsize = Some 1, getmtime = Some 0, on_move = Succeeds\<rparr>)])]))
     False
   = (Some (Dir [(''sub'', Dir [(''z.txt'',
                    File \<lparr>contents = 9, getsize = Some 1, getmtime = Some 0, on_move = Succeeds\<rparr>)]),
                 (''Documents'', Dir [(''Text'', Dir [(''a.txt'',
                    File \<lparr>contents = 1, getsize = Some 1, getmtime = Some 0, on_move = Succeeds\<rparr>)])])]),
      1, [Moved ''a.txt'' ''Documents/Text'' ''a.txt''])
   \<and> organize_files
       (\<lambda>i. \<lparr>tm_year = 2026, tm_mon = 11, tm_mday = 4, tm_hour = 9, tm_min = 5, tm_sec = 8\<rparr>)
       (Some (Dir [(''sub'', Dir [(''z.txt'',
                    File \<lparr>contents = 9, getsize = Some 1, getmtime = Some 0, on_move = Succeeds\<rparr>)]),
                 (''Documents'', Dir [(''Text'', Dir [(''a.txt'',
                    File \<lparr>contents = 1, getsize = Some 1, getmtime = Some 0, on_move = Succeeds\<rparr>)])])]))
       True
     = (Some (Dir [(''sub'', Dir [(''z.txt'',
                    File \<lparr>contents = 9, getsize = Some 1, getmtime = Some 0, on_move = Succeeds\<rparr>)]),
                 (''Documents'', Dir [(''Text'', Dir [(''a.txt'',
                    File \<lparr>contents = 1, getsize = Some 1, getmtime = Some 0, on_move = Succeeds\<rparr>)])])]),
        0, [])"
proof -
  let ?fs = "Dir [(''a.txt'', File \<lparr>contents = 1, getsize = Some 1, getmtime = Some 0, on_move = Succeeds\<rparr>),
                 (''sub'', Dir [(''z.txt'',
                    File \<lparr>contents = 9, getsize = Some 1, getmtime = Some 0, on_move = Succeeds\<rparr>)])]"
  let ?organized = "Dir [(''sub'', Dir [(''z.txt'',
                    File \<lparr>contents = 9, getsize = Some 1, getmtime = Some 0, on_move = Succeeds\<rparr>)]),
                 (''Documents'', Dir [(''Text'', Dir [(''a.txt'',
                    File \<lparr>contents = 1, getsize = Some 1, getmtime = Some 0, on_move = Succeeds\<rparr>)])])]"
  let ?clock = "\<lambda>i::nat. \<lparr>tm_year = 2026, tm_mon = 11, tm_mday = 4, tm_hour = 9, tm_min = 5, tm_sec = 7\<rparr>"
  let ?clock' = "\<lambda>i::nat. \<lparr>tm_year = 2026, tm_mon = 11, tm_mday = 4, tm_hour = 9, tm_min = 5, tm_sec = 8\<rparr>"
  have h1: "distinct_names ?fs"
    by (simp add: distinct_names_def entries_of_def)
  have h2: "organize_files ?clock (Some ?fs) False
              = (Some ?organized, 1, [Moved ''a.txt'' ''Documents/Text'' ''a.txt''])"
    by (simp add: organizer_simps extension_simps classify_def classify_with_def)
  have h3: "1 = length (top_level_files ?fs)"
    by (simp add: top_level_files_def entries_of_def)
  from second_run_moves_nothing [OF h1 h2 h3, of ?clock' True]
  obtain again where "organize_files ?clock' (Some ?organized) True = (Some ?organized, 0, again)"
    by blast
  moreover have "snd (snd (organize_files ?clock' (Some ?organized) True)) = []"
    by (simp add: organizer_simps)
  ultimately have "organize_files ?clock' (Some ?organized) True = (Some ?organized, 0, [])"
    by simp
  with h2 show ?thesis by simp
qed

text \<open>
  Claim C10. The loop runs over the listing taken from the directory as it was before
  the first move. Every file that an event reports is a name of that listing, no file is
  reported twice and none is moved twice, so files that the run has put into category
  folders are not handled again; the number returned is at most the number of top-level
  files at the start.
\<close>

theorem each_file_handled_once:
  assumes "distinct_names fs"
    and "organize_files clock (Some fs) b = (after, n, out)"
  shows "(\<forall>names. os_listdir fs = Inr names \<longrightarrow>
            organize_dir clock b fs
              = organize_loop clock b 0 names \<lparr>tree = fs, moved_files = 0, printed = []\<rparr>)
       \<and> set (event_files out) \<subseteq> set (map fst (entries_of fs))
       \<and> distinct (event_files out)
       \<and> distinct (moved_names out)
       \<and> (\<forall>f. count_list (event_files out) f \<le> 1 \<and> count_list (moved_names out) f \<le> 1)
       \<and> n \<le> length (top_level_files fs)"
proof -
  from assms(2) have out: "out = printed (organize_dir clock b fs)"
    and n: "n = moved_files (organize_dir clock b fs)"
    by (auto simp: organize_files_def Let_def)
  note inv = organize_dir_inv [OF assms(1), of clock b]
  have d: "distinct (event_files out)" using inv out by simp
  then have dm: "distinct (moved_names out)" using moved_names_sub by blast
  have c: "count_list xs f \<le> 1" if "distinct xs" for xs :: "string list" and f
    using that by (induction xs) (auto simp: count_list_0_iff)
  have "\<forall>names. os_listdir fs = Inr names \<longrightarrow>
            organize_dir clock b fs
              = organize_loop clock b 0 names \<lparr>tree = fs, moved_files = 0, printed = []\<rparr>"
    by (simp add: organize_dir_def)
  moreover have "set (event_files out) \<subseteq> set (map fst (entries_of fs))"
    using inv out by simp
  moreover have "n \<le> length (top_level_files fs)"
    using inv n by linarith
  ultimately show ?thesis using d dm c by blast
qed

theorem each_file_handled_once_witness:
  "organize_files
     (\<lambda>i. \<lparr>tm_year = 2026, tm_mon = 11, tm_mday = 4, tm_hour = 9, tm_min = 5, tm_sec = 7\<rparr>)
     (Some (Dir [(''a.txt'', File \<lparr>contents = 1, getsize = Some 1, getmtime = Some 0, on_move = Succeeds\<rparr>),
                 (''b.txt'', File \<lparr>contents = 2, getsize = Some 1, getmtime = Some 0, on_move = Succeeds\<rparr>)]))
     False
   = (Some (Dir [(''Documents'', Dir [(''Text'', Dir
        [(''a.txt'', File \<lparr>contents = 1, getsize = Some 1, getmtime = Some 0, on_move = Succeeds\<rparr>),
         (''b.txt'', File \<lparr>contents = 2, getsize = Some 1, getmtime = Some 0, on_move = Succeeds\<rparr>)])])]),
      2, [Moved ''a.txt'' ''Documents/Text'' ''a.txt'', Moved ''b.txt'' ''Documents/Text'' ''b.txt''])
   \<and> distinct (event_files
        [Moved ''a.txt'' ''Documents/Text'' ''a.txt'', Moved ''b.txt'' ''Documents/Text'' ''b.txt''])
   \<and> count_list (moved_names
        [Moved ''a.txt'' ''Documents/Text'' ''a.txt'', Moved ''b.txt'' ''Documents/Text'' ''b.txt''])
        ''a.txt'' \<le> 1"
proof -
  let ?fs = "Dir [(''a.txt'', File \<lparr>contents = 1, getsize = Some 1, getmtime = Some 0, on_move = Succeeds\<rparr>),
                 (''b.txt'', File \<lparr>contents = 2, getsize = Some 1, getmtime = Some 0, on_move = Succeeds\<rparr>)]"
  let ?clock = "\<lambda>i::nat. \<lparr>tm_year = 2026, tm_mon = 11, tm_mday = 4, tm_hour = 9, tm_min = 5, tm_sec = 7\<rparr>"
  let ?out = "[Moved ''a.txt'' ''Documents/Text'' ''a.txt'', Moved ''b.txt'' ''Documents/Text'' ''b.txt'']"
  have h1: "distinct_names ?fs"
    by (simp add: distinct_names_def entries_of_def)
  have h2: "organize_files ?clock (Some ?fs) False
     = (Some (Dir [(''Documents'', Dir [(''Text'', Dir
        [(''a.txt'', File \<lparr>contents = 1, getsize = Some 1, getmtime = Some 0, on_move = Succeeds\<rparr>),
         (''b.txt'', File \<lparr>contents = 2, getsize = Some 1, getmtime = Some 0, on_move = Succeeds\<rparr>)])])]),
      2, ?out)"
    by (simp add: organizer_simps extension_simps classify_def classify_with_def)
  from each_file_handled_once [OF h1 h2]
  have "distinct (event_files ?out)" "count_list (moved_names ?out) ''a.txt'' \<le> 1"
    by blast+
  with h2 show ?thesis by blast
qed

end
